theory Spec2Isabelle
  imports Complex_Main "HOL-Library.Signed_Division" "HOL-Library.AList"
begin

section \<open>Fixed-point integers (types.hpp)\<close>

text \<open>
  \<open>PriceMicro\<close> and \<open>QuantityNano\<close> are \<open>int64_t\<close>. A value is an \<open>int\<close>; every
  arithmetic operation of the source is followed by the two's complement wrap-around
  \<open>i64\<close> that the compiled code performs (ISO C++ leaves signed overflow undefined).
  The quotient of \<open>/\<close> is truncated towards zero (\<open>sdiv\<close>).
\<close>

definition i64 :: "int \<Rightarrow> int" where
  "i64 x = (x + 9223372036854775808) mod 18446744073709551616 - 9223372036854775808"

definition in_i64 :: "int \<Rightarrow> bool" where
  "in_i64 x = (- 9223372036854775808 \<le> x \<and> x \<le> 9223372036854775807)"

definition add64 :: "int \<Rightarrow> int \<Rightarrow> int" where
  "add64 a b = i64 (a + b)"

definition sub64 :: "int \<Rightarrow> int \<Rightarrow> int" where
  "sub64 a b = i64 (a - b)"

definition mul64 :: "int \<Rightarrow> int \<Rightarrow> int" where
  "mul64 a b = i64 (a * b)"

definition div64 :: "int \<Rightarrow> int \<Rightarrow> int" where
  "div64 a b = i64 (a sdiv b)"

definition neg64 :: "int \<Rightarrow> int" where
  "neg64 a = i64 (- a)"

definition abs64 :: "int \<Rightarrow> int" where
  "abs64 a = i64 \<bar>a\<bar>"

definition PRICE_SCALE :: int where
  "PRICE_SCALE = 1000000"

definition QUANTITY_SCALE :: int where
  "QUANTITY_SCALE = 1000000000"

text \<open>
  \<open>double\<close> is modelled by \<open>real\<close>: the conversions and the quotients below are exact,
  the rounding of IEEE 754 is not represented.
\<close>

definition from_price_micro :: "int \<Rightarrow> real" where
  "from_price_micro p = real_of_int p / real_of_int PRICE_SCALE"

definition from_quantity_nano :: "int \<Rightarrow> real" where
  "from_quantity_nano q = real_of_int q / real_of_int QUANTITY_SCALE"

datatype Side = BUY | SELL

datatype OrderType = MARKET | LIMIT | STOP_MARKET | STOP_LIMIT | TRAILING_STOP

datatype TimeInForce = GTC | IOC | FOK | GTD

datatype OrderStatus =
  PENDING | OPEN | PARTIALLY_FILLED | FILLED | CANCELLED | REJECTED | EXPIRED

datatype ErrorCode =
  OK | INVALID_SYMBOL | INVALID_QUANTITY | INVALID_PRICE | INSUFFICIENT_MARGIN
  | RISK_LIMIT_EXCEEDED | ORDER_NOT_FOUND | POSITION_NOT_FOUND | NETWORK_ERROR
  | TIMEOUT | RATE_LIMITED | INTERNAL_ERROR


section \<open>Orderbook (orderbook.hpp)\<close>

definition MAX_ORDERBOOK_LEVELS :: nat where
  "MAX_ORDERBOOK_LEVELS = 25"

record PriceLevel =
  pl_price :: int
  pl_quantity :: int
  pl_order_count :: nat

text \<open>
  The two \<open>std::array<PriceLevel, 25>\<close> are lists of length 25, the counts, the sequence
  number and the timestamp are \<open>size_t\<close>/\<open>uint64_t\<close> values.
\<close>

record Orderbook =
  bids :: "PriceLevel list"
  asks :: "PriceLevel list"
  bid_count :: nat
  ask_count :: nat
  ob_sequence :: nat
  ob_timestamp :: nat

definition empty_level :: PriceLevel where
  "empty_level = \<lparr>pl_price = 0, pl_quantity = 0, pl_order_count = 0\<rparr>"

definition new_orderbook :: Orderbook where
  "new_orderbook =
     \<lparr>bids = replicate MAX_ORDERBOOK_LEVELS empty_level,
      asks = replicate MAX_ORDERBOOK_LEVELS empty_level,
      bid_count = 0, ask_count = 0, ob_sequence = 0, ob_timestamp = 0\<rparr>"

definition wf_book :: "Orderbook \<Rightarrow> bool" where
  "wf_book b = (length (bids b) = MAX_ORDERBOOK_LEVELS
     \<and> length (asks b) = MAX_ORDERBOOK_LEVELS
     \<and> bid_count b \<le> MAX_ORDERBOOK_LEVELS \<and> ask_count b \<le> MAX_ORDERBOOK_LEVELS)"

text \<open>\<open>memcpy\<close> overwrites the first \<open>count\<close> slots and leaves the others.\<close>

definition update_snapshot ::
  "Orderbook \<Rightarrow> PriceLevel list \<Rightarrow> nat \<Rightarrow> PriceLevel list \<Rightarrow> nat \<Rightarrow> nat \<Rightarrow> nat \<Rightarrow> Orderbook" where
  "update_snapshot b new_bids n_bids new_asks n_asks sq ts =
     (let bc = min n_bids MAX_ORDERBOOK_LEVELS;
          ac = min n_asks MAX_ORDERBOOK_LEVELS
      in \<lparr>bids = take bc new_bids @ drop bc (bids b),
          asks = take ac new_asks @ drop ac (asks b),
          bid_count = bc, ask_count = ac, ob_sequence = sq, ob_timestamp = ts\<rparr>)"

definition update_bid :: "Orderbook \<Rightarrow> nat \<Rightarrow> int \<Rightarrow> int \<Rightarrow> Orderbook" where
  "update_bid b level p q =
     (if level < MAX_ORDERBOOK_LEVELS then
        let b1 = b\<lparr>bids := (bids b)[level := (bids b ! level)\<lparr>pl_price := p, pl_quantity := q\<rparr>]\<rparr>
        in if level \<ge> bid_count b1 then b1\<lparr>bid_count := level + 1\<rparr> else b1
      else b)"

definition update_ask :: "Orderbook \<Rightarrow> nat \<Rightarrow> int \<Rightarrow> int \<Rightarrow> Orderbook" where
  "update_ask b level p q =
     (if level < MAX_ORDERBOOK_LEVELS then
        let b1 = b\<lparr>asks := (asks b)[level := (asks b ! level)\<lparr>pl_price := p, pl_quantity := q\<rparr>]\<rparr>
        in if level \<ge> ask_count b1 then b1\<lparr>ask_count := level + 1\<rparr> else b1
      else b)"

definition best_bid :: "Orderbook \<Rightarrow> int" where
  "best_bid b = (if bid_count b > 0 then pl_price (bids b ! 0) else 0)"

definition best_ask :: "Orderbook \<Rightarrow> int" where
  "best_ask b = (if ask_count b > 0 then pl_price (asks b ! 0) else 0)"

definition mid_price :: "Orderbook \<Rightarrow> int" where
  "mid_price b = div64 (add64 (best_bid b) (best_ask b)) 2"

text \<open>The summation loops run over the first \<open>min levels count\<close> slots.\<close>

definition total_bid_liquidity :: "Orderbook \<Rightarrow> nat \<Rightarrow> int" where
  "total_bid_liquidity b levels =
     foldl (\<lambda>total l. add64 total (pl_quantity l)) 0 (take (min levels (bid_count b)) (bids b))"

definition total_ask_liquidity :: "Orderbook \<Rightarrow> nat \<Rightarrow> int" where
  "total_ask_liquidity b levels =
     foldl (\<lambda>total l. add64 total (pl_quantity l)) 0 (take (min levels (ask_count b)) (asks b))"

definition imbalance :: "Orderbook \<Rightarrow> nat \<Rightarrow> real" where
  "imbalance b levels =
     (let bid_liq = total_bid_liquidity b levels;
          ask_liq = total_ask_liquidity b levels;
          total = add64 bid_liq ask_liq
      in if total = 0 then 0
         else real_of_int (sub64 bid_liq ask_liq) / real_of_int total)"

text \<open>
  The loop of \<open>estimate_execution_price\<close>, over the slots still to visit, with its three
  accumulators; it stops at the end of the side or when nothing remains.
\<close>

fun execution_loop :: "PriceLevel list \<Rightarrow> int \<Rightarrow> int \<Rightarrow> int \<Rightarrow> int \<times> int" where
  "execution_loop [] remaining weighted_sum filled = (weighted_sum, filled)"
| "execution_loop (l # ls) remaining weighted_sum filled =
     (if remaining > 0 then
        let fill = min remaining (pl_quantity l)
        in execution_loop ls (sub64 remaining fill)
             (add64 weighted_sum (div64 (mul64 (pl_price l) fill) QUANTITY_SCALE))
             (add64 filled fill)
      else (weighted_sum, filled))"

definition estimate_execution_price :: "Orderbook \<Rightarrow> Side \<Rightarrow> int \<Rightarrow> int" where
  "estimate_execution_price b side qty =
     (let levels = (if side = BUY then asks b else bids b);
          count = (if side = BUY then ask_count b else bid_count b);
          (weighted_sum, filled) = execution_loop (take count levels) qty 0 0
      in if filled > 0 then div64 (mul64 weighted_sum QUANTITY_SCALE) filled else 0)"


section \<open>Reference quantities for the orderbook analytics\<close>

text \<open>
  The mathematical sums the specification speaks of, without wrap-around: the liquidity
  of the first \<open>levels\<close> levels of a side, the levels walked by an order, the quantity
  each level contributes to a requested quantity, and the notional filled.
\<close>

definition bid_liquidity :: "Orderbook \<Rightarrow> nat \<Rightarrow> int" where
  "bid_liquidity b levels = sum_list (map pl_quantity (take (min levels (bid_count b)) (bids b)))"

definition ask_liquidity :: "Orderbook \<Rightarrow> nat \<Rightarrow> int" where
  "ask_liquidity b levels = sum_list (map pl_quantity (take (min levels (ask_count b)) (asks b)))"

definition opposing_levels :: "Orderbook \<Rightarrow> Side \<Rightarrow> PriceLevel list" where
  "opposing_levels b side =
     (if side = BUY then take (ask_count b) (asks b) else take (bid_count b) (bids b))"

fun greedy_fills :: "int \<Rightarrow> PriceLevel list \<Rightarrow> int list" where
  "greedy_fills need [] = []"
| "greedy_fills need (l # ls) =
     (let f = max 0 (min need (pl_quantity l)) in f # greedy_fills (need - f) ls)"

definition filled_quantity :: "int \<Rightarrow> PriceLevel list \<Rightarrow> int" where
  "filled_quantity qty ls = sum_list (greedy_fills qty ls)"

definition exact_notional :: "int \<Rightarrow> PriceLevel list \<Rightarrow> int" where
  "exact_notional qty ls = sum_list (map2 (\<lambda>l f. pl_price l * f) ls (greedy_fills qty ls))"

definition truncated_notional :: "int \<Rightarrow> PriceLevel list \<Rightarrow> int" where
  "truncated_notional qty ls =
     sum_list (map2 (\<lambda>l f. (pl_price l * f) sdiv QUANTITY_SCALE) ls (greedy_fills qty ls))"


section \<open>Single-producer single-consumer queue (lock_free_queue.hpp)\<close>

unbundle bit_operations_syntax

text \<open>
  The indices are \<open>size_t\<close> values below the capacity, the buffer is the
  \<open>std::array<T, Capacity>\<close>. \<open>Capacity\<close> is a template parameter, a power of two by the
  \<open>static_assert\<close>; the functions take it as their first argument. The model is
  sequential: one call runs to its end before the next starts.
\<close>

record 'a SPSCQueue =
  q_head :: nat
  q_tail :: nat
  q_buffer :: "'a list"

definition new_queue :: "nat \<Rightarrow> 'a \<Rightarrow> 'a SPSCQueue" where
  "new_queue C d = \<lparr>q_head = 0, q_tail = 0, q_buffer = replicate C d\<rparr>"

definition MASK :: "nat \<Rightarrow> nat" where
  "MASK C = C - 1"

definition push :: "nat \<Rightarrow> 'a SPSCQueue \<Rightarrow> 'a \<Rightarrow> bool \<times> 'a SPSCQueue" where
  "push C q v =
     (let head = q_head q;
          next_head = (head + 1) AND MASK C
      in if next_head = q_tail q then (False, q)
         else (True, q\<lparr>q_buffer := (q_buffer q)[head := v], q_head := next_head\<rparr>))"

definition pop :: "nat \<Rightarrow> 'a SPSCQueue \<Rightarrow> 'a option \<times> 'a SPSCQueue" where
  "pop C q =
     (let tail = q_tail q
      in if tail = q_head q then (None, q)
         else (Some (q_buffer q ! tail), q\<lparr>q_tail := (tail + 1) AND MASK C\<rparr>))"

definition peek :: "nat \<Rightarrow> 'a SPSCQueue \<Rightarrow> 'a option" where
  "peek C q = (let tail = q_tail q in if tail = q_head q then None else Some (q_buffer q ! tail))"

definition empty_q :: "'a SPSCQueue \<Rightarrow> bool" where
  "empty_q q = (q_head q = q_tail q)"

definition size_q :: "nat \<Rightarrow> 'a SPSCQueue \<Rightarrow> nat" where
  "size_q C q = ((q_head q + 18446744073709551616 - q_tail q) mod 18446744073709551616) AND MASK C"

definition capacity :: "nat \<Rightarrow> nat" where
  "capacity C = C - 1"

text \<open>A run of pushes and pops, with the value each call returns.\<close>

datatype 'a queue_op = Push 'a | Pop

datatype 'a queue_result = Pushed bool | Popped "'a option"

fun spsc_step :: "nat \<Rightarrow> 'a SPSCQueue \<Rightarrow> 'a queue_op \<Rightarrow> 'a queue_result \<times> 'a SPSCQueue" where
  "spsc_step C q (Push v) = (case push C q v of (ok, q') \<Rightarrow> (Pushed ok, q'))"
| "spsc_step C q Pop = (case pop C q of (r, q') \<Rightarrow> (Popped r, q'))"

fun spsc_run :: "nat \<Rightarrow> 'a SPSCQueue \<Rightarrow> 'a queue_op list \<Rightarrow> 'a queue_result list \<times> 'a SPSCQueue" where
  "spsc_run C q [] = ([], q)"
| "spsc_run C q (x # xs) =
     (case spsc_step C q x of (r, q') \<Rightarrow>
        (case spsc_run C q' xs of (rs, q'') \<Rightarrow> (r # rs, q'')))"

text \<open>
  The queue of the specification: a list that holds at most \<open>C - 1\<close> elements, a push
  that fails exactly when it holds \<open>C - 1\<close>, a pop that returns the oldest element.
\<close>

fun fifo_step :: "nat \<Rightarrow> 'a list \<Rightarrow> 'a queue_op \<Rightarrow> 'a queue_result \<times> 'a list" where
  "fifo_step C xs (Push v) =
     (if length xs = C - 1 then (Pushed False, xs) else (Pushed True, xs @ [v]))"
| "fifo_step C xs Pop =
     (case xs of [] \<Rightarrow> (Popped None, []) | x # r \<Rightarrow> (Popped (Some x), r))"

fun fifo_run :: "nat \<Rightarrow> 'a list \<Rightarrow> 'a queue_op list \<Rightarrow> 'a queue_result list \<times> 'a list" where
  "fifo_run C xs [] = ([], xs)"
| "fifo_run C xs (x # ops) =
     (case fifo_step C xs x of (r, xs') \<Rightarrow>
        (case fifo_run C xs' ops of (rs, xs'') \<Rightarrow> (r # rs, xs'')))"

text \<open>
  The elements pushed and not yet popped: the slots from the tail up to the head, around
  the ring.
\<close>

fun unread :: "nat \<Rightarrow> 'a list \<Rightarrow> nat \<Rightarrow> nat \<Rightarrow> 'a list" where
  "unread C buf t 0 = []"
| "unread C buf t (Suc n) = buf ! t # unread C buf ((t + 1) mod C) n"

definition held :: "nat \<Rightarrow> 'a SPSCQueue \<Rightarrow> nat" where
  "held C q = (q_head q + C - q_tail q) mod C"

definition contents :: "nat \<Rightarrow> 'a SPSCQueue \<Rightarrow> 'a list" where
  "contents C q = unread C (q_buffer q) (q_tail q) (held C q)"

definition invar :: "nat \<Rightarrow> 'a SPSCQueue \<Rightarrow> bool" where
  "invar C q = (q_head q < C \<and> q_tail q < C \<and> length (q_buffer q) = C)"


section \<open>Object pool (memory_pool.hpp)\<close>

text \<open>
  A node is named by its index in \<open>nodes_\<close>; a pointer (to a node, or to the object
  stored in it) is \<open>Some\<close> index, \<open>nullptr\<close> is \<open>None\<close>. The model is sequential, so a
  compare-and-swap finds the head it has just read. \<open>allocated_\<close> is a \<open>size_t\<close>
  counter.
\<close>

record ObjectPool =
  free_list :: "nat option"
  allocated :: nat
  node_next :: "nat \<Rightarrow> nat option"

definition new_pool :: "nat \<Rightarrow> ObjectPool" where
  "new_pool PoolSize =
     \<lparr>free_list = Some 0, allocated = 0,
      node_next = (\<lambda>i. if i + 1 < PoolSize then Some (i + 1) else None)\<rparr>"

definition pop_free :: "ObjectPool \<Rightarrow> nat option \<times> ObjectPool" where
  "pop_free p =
     (case free_list p of
        None \<Rightarrow> (None, p)
      | Some head \<Rightarrow> (Some head, p\<lparr>free_list := node_next p head\<rparr>))"

definition push_free :: "ObjectPool \<Rightarrow> nat \<Rightarrow> ObjectPool" where
  "push_free p node = p\<lparr>node_next := (node_next p)(node := free_list p), free_list := Some node\<rparr>"

definition allocate :: "ObjectPool \<Rightarrow> nat option \<times> ObjectPool" where
  "allocate p =
     (case pop_free p of
        (None, p1) \<Rightarrow> (None, p1)
      | (Some node, p1) \<Rightarrow>
          (Some node, p1\<lparr>allocated := (allocated p1 + 1) mod 18446744073709551616\<rparr>))"

definition deallocate :: "ObjectPool \<Rightarrow> nat option \<Rightarrow> ObjectPool" where
  "deallocate p ptr =
     (case ptr of
        None \<Rightarrow> p
      | Some node \<Rightarrow>
          (let p1 = push_free p node
           in p1\<lparr>allocated := (allocated p1 + 18446744073709551616 - 1) mod 18446744073709551616\<rparr>))"

definition available :: "nat \<Rightarrow> ObjectPool \<Rightarrow> nat" where
  "available PoolSize p =
     (PoolSize + 18446744073709551616 - allocated p) mod 18446744073709551616"

definition pool_capacity :: "nat \<Rightarrow> nat" where
  "pool_capacity PoolSize = PoolSize"

text \<open>\<open>n\<close> calls of \<open>allocate\<close> in a row.\<close>

fun allocate_n :: "nat \<Rightarrow> ObjectPool \<Rightarrow> ObjectPool" where
  "allocate_n 0 p = p"
| "allocate_n (Suc n) p = snd (allocate (allocate_n n p))"

text \<open>
  The pools a caller can reach, with the set of objects handed out and not yet returned:
  \<open>deallocate\<close> is called on \<open>nullptr\<close> or on a live object only.
\<close>

inductive pool_reach :: "nat \<Rightarrow> ObjectPool \<Rightarrow> nat set \<Rightarrow> bool" for PoolSize :: nat where
  reach_new: "pool_reach PoolSize (new_pool PoolSize) {}"
| reach_allocate:
    "pool_reach PoolSize p live \<Longrightarrow> allocate p = (Some obj, p1) \<Longrightarrow>
       pool_reach PoolSize p1 (insert obj live)"
| reach_exhausted:
    "pool_reach PoolSize p live \<Longrightarrow> allocate p = (None, p1) \<Longrightarrow> pool_reach PoolSize p1 live"
| reach_deallocate:
    "pool_reach PoolSize p live \<Longrightarrow> obj \<in> live \<Longrightarrow>
       pool_reach PoolSize (deallocate p (Some obj)) (live - {obj})"
| reach_deallocate_null:
    "pool_reach PoolSize p live \<Longrightarrow> pool_reach PoolSize (deallocate p None) live"

text \<open>The free list as the list of nodes met from the head along \<open>next\<close>.\<close>

primrec free_chain :: "(nat \<Rightarrow> nat option) \<Rightarrow> nat option \<Rightarrow> nat list \<Rightarrow> bool" where
  "free_chain nx p [] = (p = None)"
| "free_chain nx p (x # xs) = (p = Some x \<and> free_chain nx (nx x) xs)"

definition pool_inv :: "nat \<Rightarrow> ObjectPool \<Rightarrow> nat set \<Rightarrow> bool" where
  "pool_inv PoolSize p live =
     (\<exists>xs. free_chain (node_next p) (free_list p) xs \<and> distinct xs
        \<and> set xs = {0..<PoolSize} - live \<and> live \<subseteq> {0..<PoolSize}
        \<and> allocated p = card live)"


section \<open>Execution engine (execution_engine.hpp)\<close>

text \<open>
  A \<open>Symbol\<close> is the string its \<open>view()\<close> returns (at most 15 characters); the tables
  keyed by \<open>std::string(symbol.view())\<close> are keyed by it. The timestamps, read from the
  clock, are left out of the records.
\<close>

type_synonym Symbol = string

record Order =
  o_id :: nat
  o_symbol :: Symbol
  o_price :: int
  o_stop_price :: int
  o_quantity :: int
  o_filled_qty :: int
  o_side :: Side
  o_type :: OrderType
  o_tif :: TimeInForce
  o_status :: OrderStatus

definition remaining :: "Order \<Rightarrow> int" where
  "remaining order = sub64 (o_quantity order) (o_filled_qty order)"

definition is_active :: "Order \<Rightarrow> bool" where
  "is_active order = (o_status order = OPEN \<or> o_status order = PARTIALLY_FILLED)"

record Position =
  p_symbol :: Symbol
  p_quantity :: int
  avg_entry_price :: int
  unrealized_pnl :: int
  realized_pnl :: int

definition is_long :: "Position \<Rightarrow> bool" where
  "is_long pos = (p_quantity pos > 0)"

definition is_short :: "Position \<Rightarrow> bool" where
  "is_short pos = (p_quantity pos < 0)"

definition is_flat :: "Position \<Rightarrow> bool" where
  "is_flat pos = (p_quantity pos = 0)"

record RiskParams =
  max_position_size :: real
  max_drawdown :: real
  stop_loss_percent :: real
  take_profit_percent :: real
  max_open_orders :: int
  max_daily_trades :: int

definition default_risk_params :: RiskParams where
  "default_risk_params =
     \<lparr>max_position_size = 1 / 10, max_drawdown = 5 / 100, stop_loss_percent = 2 / 100,
      take_profit_percent = 3 / 100, max_open_orders = 10, max_daily_trades = 100\<rparr>"

text \<open>The cast of a \<open>double\<close> to \<open>int64_t\<close> drops the fraction.\<close>

definition to_price_micro :: "real \<Rightarrow> int" where
  "to_price_micro p =
     i64 (if 0 \<le> p then \<lfloor>p * real_of_int PRICE_SCALE\<rfloor> else \<lceil>p * real_of_int PRICE_SCALE\<rceil>)"

datatype EventType =
  ORDER_SUBMITTED | ORDER_ACCEPTED | ORDER_REJECTED | ORDER_PARTIALLY_FILLED | ORDER_FILLED
  | ORDER_CANCELLED | POSITION_OPENED | POSITION_UPDATED | POSITION_CLOSED | RISK_ALERT

record ExecutionEvent =
  ev_type :: EventType
  ev_order_id :: nat
  ev_symbol :: Symbol
  ev_price :: int
  ev_quantity :: int
  ev_error :: ErrorCode
  ev_message :: string

text \<open>
  The engine. An \<open>Order *\<close> is the index of its pool node and \<open>order_store\<close> holds the
  object in each node; \<open>active_orders_\<close> maps an id to the pointer; the two string-keyed
  tables are maps. Every callback receives every event in turn: \<open>events\<close> is the sequence
  of events emitted so far.
\<close>

record ExecutionEngine =
  risk_params :: RiskParams
  next_order_id :: nat
  equity :: int
  is_running :: bool
  order_pool :: ObjectPool
  order_store :: "nat \<Rightarrow> Order"
  active_orders :: "(nat \<times> nat) list"
  positions :: "Symbol \<Rightarrow> Position option"
  orderbooks :: "Symbol \<Rightarrow> Orderbook option"
  events :: "ExecutionEvent list"

definition ORDER_POOL_SIZE :: nat where
  "ORDER_POOL_SIZE = 10000"

definition blank_order :: Order where
  "blank_order =
     \<lparr>o_id = 0, o_symbol = [], o_price = 0, o_stop_price = 0, o_quantity = 0,
      o_filled_qty = 0, o_side = BUY, o_type = MARKET, o_tif = GTC, o_status = PENDING\<rparr>"

definition new_engine :: "RiskParams \<Rightarrow> ExecutionEngine" where
  "new_engine rp =
     \<lparr>risk_params = rp, next_order_id = 1, equity = mul64 1000000 PRICE_SCALE,
      is_running = False, order_pool = new_pool ORDER_POOL_SIZE,
      order_store = (\<lambda>_. blank_order), active_orders = [],
      positions = Map.empty, orderbooks = Map.empty, events = []\<rparr>"

definition emit_event ::
  "ExecutionEngine \<Rightarrow> EventType \<Rightarrow> nat \<Rightarrow> Symbol \<Rightarrow> int \<Rightarrow> int \<Rightarrow> ErrorCode \<Rightarrow> string
     \<Rightarrow> ExecutionEngine" where
  "emit_event s ty oid symbol price qty err msg =
     s\<lparr>events := events s @
        [\<lparr>ev_type = ty, ev_order_id = oid, ev_symbol = symbol, ev_price = price,
          ev_quantity = qty, ev_error = err, ev_message = msg\<rparr>]\<rparr>"

definition get_position :: "ExecutionEngine \<Rightarrow> Symbol \<Rightarrow> Position option" where
  "get_position s symbol = positions s symbol"

definition get_orderbook :: "ExecutionEngine \<Rightarrow> Symbol \<Rightarrow> Orderbook option" where
  "get_orderbook s symbol = orderbooks s symbol"

definition update_orderbook :: "ExecutionEngine \<Rightarrow> Symbol \<Rightarrow> Orderbook \<Rightarrow> ExecutionEngine" where
  "update_orderbook s symbol book = s\<lparr>orderbooks := (orderbooks s)(symbol \<mapsto> book)\<rparr>"

definition set_equity :: "ExecutionEngine \<Rightarrow> int \<Rightarrow> ExecutionEngine" where
  "set_equity s e = s\<lparr>equity := e\<rparr>"

definition get_current_price :: "ExecutionEngine \<Rightarrow> Symbol \<Rightarrow> int" where
  "get_current_price s symbol =
     (case get_orderbook s symbol of Some book \<Rightarrow> mid_price book | None \<Rightarrow> to_price_micro 1)"

definition get_execution_price :: "ExecutionEngine \<Rightarrow> Symbol \<Rightarrow> Side \<Rightarrow> int \<Rightarrow> int" where
  "get_execution_price s symbol side qty =
     (case get_orderbook s symbol of
        Some book \<Rightarrow> estimate_execution_price book side qty
      | None \<Rightarrow> to_price_micro 1)"

text \<open>
  The quotient by the equity is a \<open>double\<close> division: by a zero equity it is an infinity
  with the sign of the notional, or not a number, and only minus infinity is below the
  limit.
\<close>

definition check_position_risk :: "ExecutionEngine \<Rightarrow> Symbol \<Rightarrow> Side \<Rightarrow> int \<Rightarrow> bool" where
  "check_position_risk s symbol side quantity =
     (let new_qty =
            (case get_position s symbol of
               None \<Rightarrow> quantity
             | Some pos \<Rightarrow>
                 if side = BUY then add64 (p_quantity pos) quantity
                 else sub64 (p_quantity pos) quantity);
          notional = from_quantity_nano (abs64 new_qty)
                       * from_price_micro (get_current_price s symbol)
      in if from_price_micro (equity s) = 0 then notional < 0
         else notional / from_price_micro (equity s) \<le> max_position_size (risk_params s))"

definition check_order_count_risk :: "ExecutionEngine \<Rightarrow> bool" where
  "check_order_count_risk s =
     (int (length (active_orders s)) < max_open_orders (risk_params s))"

text \<open>
  The branch of \<open>update_position\<close> for a symbol that has a position: the position after a
  fill of signed size \<open>delta\<close>, before the test for a flat position.
\<close>

definition apply_fill :: "Position \<Rightarrow> int \<Rightarrow> int \<Rightarrow> Position" where
  "apply_fill pos delta price =
     (let old_qty = p_quantity pos
      in if (old_qty \<ge> 0 \<and> delta > 0) \<or> (old_qty \<le> 0 \<and> delta < 0) then
           (let total_notional =
                  add64 (div64 (mul64 (avg_entry_price pos) (abs64 old_qty)) QUANTITY_SCALE)
                        (div64 (mul64 price (abs64 delta)) QUANTITY_SCALE);
                pos2 = pos\<lparr>p_quantity := add64 (p_quantity pos) delta\<rparr>
            in if p_quantity pos2 \<noteq> 0 then
                 pos2\<lparr>avg_entry_price :=
                   div64 (mul64 total_notional QUANTITY_SCALE) (abs64 (p_quantity pos2))\<rparr>
               else pos2)
         else
           (let closed = min (abs64 old_qty) (abs64 delta);
                pnl = div64 (mul64 (sub64 price (avg_entry_price pos)) closed) QUANTITY_SCALE
            in pos\<lparr>realized_pnl :=
                     add64 (realized_pnl pos) (if old_qty > 0 then pnl else neg64 pnl),
                   p_quantity := add64 (p_quantity pos) delta\<rparr>))"

definition update_position ::
  "ExecutionEngine \<Rightarrow> Symbol \<Rightarrow> Side \<Rightarrow> int \<Rightarrow> int \<Rightarrow> ExecutionEngine" where
  "update_position s symbol side qty price =
     (case positions s symbol of
        None \<Rightarrow>
          (let pos = \<lparr>p_symbol = symbol,
                      p_quantity = (if side = BUY then qty else neg64 qty),
                      avg_entry_price = price, unrealized_pnl = 0, realized_pnl = 0\<rparr>
           in emit_event (s\<lparr>positions := (positions s)(symbol \<mapsto> pos)\<rparr>)
                POSITION_OPENED 0 symbol price qty OK ''Position opened'')
      | Some pos \<Rightarrow>
          (let delta = (if side = BUY then qty else neg64 qty);
               pos1 = apply_fill pos delta price
           in if is_flat pos1 then
                (emit_event s POSITION_CLOSED 0 symbol price qty OK ''Position closed'')
                  \<lparr>positions := (positions s)(symbol := None)\<rparr>
              else
                emit_event (s\<lparr>positions := (positions s)(symbol \<mapsto> pos1)\<rparr>)
                  POSITION_UPDATED 0 symbol price qty OK ''Position updated''))"

definition simulate_fill :: "ExecutionEngine \<Rightarrow> nat \<Rightarrow> int \<Rightarrow> ExecutionEngine" where
  "simulate_fill s node fill_price =
     (let order = (order_store s node)\<lparr>o_status := FILLED,
                     o_filled_qty := o_quantity (order_store s node)\<rparr>;
          s1 = s\<lparr>order_store := (order_store s)(node := order)\<rparr>;
          s2 = update_position s1 (o_symbol order) (o_side order) (o_quantity order) fill_price;
          s3 = emit_event s2 ORDER_FILLED (o_id order) (o_symbol order) fill_price
                 (o_quantity order) OK ''Order filled'';
          s4 = s3\<lparr>active_orders := AList.delete (o_id order) (active_orders s3)\<rparr>
      in s4\<lparr>order_pool := deallocate (order_pool s4) (Some node)\<rparr>)"

definition submit_order ::
  "ExecutionEngine \<Rightarrow> Symbol \<Rightarrow> Side \<Rightarrow> OrderType \<Rightarrow> int \<Rightarrow> int \<Rightarrow> int \<Rightarrow> TimeInForce
     \<Rightarrow> nat \<times> ExecutionEngine" where
  "submit_order s symbol side type quantity price stop_price tif =
     (if \<not> check_position_risk s symbol side quantity then
        (0, emit_event s ORDER_REJECTED 0 symbol 0 quantity RISK_LIMIT_EXCEEDED
              ''Position size limit exceeded'')
      else if \<not> check_order_count_risk s then
        (0, emit_event s ORDER_REJECTED 0 symbol 0 quantity RISK_LIMIT_EXCEEDED
              ''Max open orders exceeded'')
      else
        (case allocate (order_pool s) of
           (None, pool1) \<Rightarrow>
             (0, emit_event (s\<lparr>order_pool := pool1\<rparr>) ORDER_REJECTED 0 symbol 0 quantity
                   INTERNAL_ERROR ''Order pool exhausted'')
         | (Some node, pool1) \<Rightarrow>
             (let oid = next_order_id s;
                  order = \<lparr>o_id = oid, o_symbol = symbol, o_price = price,
                           o_stop_price = stop_price, o_quantity = quantity, o_filled_qty = 0,
                           o_side = side, o_type = type, o_tif = tif, o_status = PENDING\<rparr>;
                  s1 = s\<lparr>order_pool := pool1,
                         next_order_id := (oid + 1) mod 18446744073709551616,
                         order_store := (order_store s)(node := order),
                         active_orders := AList.update oid node (active_orders s)\<rparr>;
                  s2 = emit_event s1 ORDER_SUBMITTED oid symbol price quantity OK
                         ''Order submitted''
              in (oid,
                  if type = MARKET then
                    simulate_fill s2 node
                      (if price \<noteq> 0 then price
                       else get_execution_price s2 symbol side quantity)
                  else s2))))"

definition cancel_order :: "ExecutionEngine \<Rightarrow> nat \<Rightarrow> bool \<times> ExecutionEngine" where
  "cancel_order s oid =
     (case map_of (active_orders s) oid of
        None \<Rightarrow> (False, s)
      | Some node \<Rightarrow>
          (let order = order_store s node
           in if \<not> is_active order then (False, s)
              else
                (let cancelled = order\<lparr>o_status := CANCELLED\<rparr>;
                     s1 = s\<lparr>order_store := (order_store s)(node := cancelled)\<rparr>;
                     s2 = emit_event s1 ORDER_CANCELLED oid (o_symbol cancelled)
                            (o_price cancelled) (remaining cancelled) OK ''Order cancelled'';
                     s3 = s2\<lparr>active_orders := AList.delete oid (active_orders s2)\<rparr>
                 in (True, s3\<lparr>order_pool := deallocate (order_pool s3) (Some node)\<rparr>))))"

definition close_position :: "ExecutionEngine \<Rightarrow> Symbol \<Rightarrow> bool \<times> ExecutionEngine" where
  "close_position s symbol =
     (case positions s symbol of
        None \<Rightarrow> (False, s)
      | Some pos \<Rightarrow>
          if is_flat pos then (False, s)
          else
            (let close_side = (if is_long pos then SELL else BUY);
                 qty = abs64 (p_quantity pos)
             in (True, snd (submit_order s symbol close_side MARKET qty 0 0 GTC))))"

text \<open>A sequence of calls into the engine.\<close>

datatype EngineOp =
  Submit Symbol Side OrderType int int int TimeInForce
  | Cancel nat
  | ClosePosition Symbol
  | UpdateOrderbook Symbol Orderbook
  | SetEquity int

fun engine_step :: "ExecutionEngine \<Rightarrow> EngineOp \<Rightarrow> ExecutionEngine" where
  "engine_step s (Submit symbol side type quantity price stop_price tif) =
     snd (submit_order s symbol side type quantity price stop_price tif)"
| "engine_step s (Cancel oid) = snd (cancel_order s oid)"
| "engine_step s (ClosePosition symbol) = snd (close_position s symbol)"
| "engine_step s (UpdateOrderbook symbol book) = update_orderbook s symbol book"
| "engine_step s (SetEquity e) = set_equity s e"

definition engine_run :: "ExecutionEngine \<Rightarrow> EngineOp list \<Rightarrow> ExecutionEngine" where
  "engine_run s ops = foldl engine_step s ops"

text \<open>The invariant of the position table, and the orders whose quantity is a non-zero
  \<open>int64_t\<close>.\<close>

definition no_flat_position :: "ExecutionEngine \<Rightarrow> bool" where
  "no_flat_position s = (\<forall>symbol pos. positions s symbol = Some pos \<longrightarrow> p_quantity pos \<noteq> 0)"

fun nonzero_quantity :: "EngineOp \<Rightarrow> bool" where
  "nonzero_quantity (Submit symbol side type quantity price stop_price tif) =
     (in_i64 quantity \<and> quantity \<noteq> 0)"
| "nonzero_quantity _ = True"

text \<open>
  The quantities the position accounting is stated with: the signed size of a fill, the
  notional after the two truncating divisions, the profit realised on the closed part,
  and the conditions under which no intermediate result leaves the 64-bit range.
\<close>

definition signed_quantity :: "Side \<Rightarrow> int \<Rightarrow> int" where
  "signed_quantity side qty = (if side = BUY then qty else - qty)"

definition scaled_notional :: "Position \<Rightarrow> int \<Rightarrow> int \<Rightarrow> int" where
  "scaled_notional pos delta price =
     (avg_entry_price pos * \<bar>p_quantity pos\<bar>) sdiv QUANTITY_SCALE
       + (price * \<bar>delta\<bar>) sdiv QUANTITY_SCALE"

definition closed_pnl :: "Position \<Rightarrow> int \<Rightarrow> int \<Rightarrow> int" where
  "closed_pnl pos delta price =
     ((price - avg_entry_price pos) * min \<bar>p_quantity pos\<bar> \<bar>delta\<bar>) sdiv QUANTITY_SCALE"

definition increase_in_range :: "Position \<Rightarrow> int \<Rightarrow> int \<Rightarrow> bool" where
  "increase_in_range pos delta price =
     (\<bar>p_quantity pos\<bar> \<le> 9223372036854775807 \<and> \<bar>delta\<bar> \<le> 9223372036854775807
      \<and> \<bar>p_quantity pos + delta\<bar> \<le> 9223372036854775807
      \<and> in_i64 (avg_entry_price pos * \<bar>p_quantity pos\<bar>) \<and> in_i64 (price * \<bar>delta\<bar>)
      \<and> in_i64 (scaled_notional pos delta price * QUANTITY_SCALE))"

definition reduce_in_range :: "Position \<Rightarrow> int \<Rightarrow> int \<Rightarrow> bool" where
  "reduce_in_range pos delta price =
     (\<bar>p_quantity pos\<bar> \<le> 9223372036854775807 \<and> \<bar>delta\<bar> \<le> 9223372036854775807
      \<and> in_i64 (p_quantity pos + delta)
      \<and> in_i64 (price - avg_entry_price pos)
      \<and> in_i64 ((price - avg_entry_price pos) * min \<bar>p_quantity pos\<bar> \<bar>delta\<bar>)
      \<and> in_i64 (realized_pnl pos + closed_pnl pos delta price)
      \<and> in_i64 (realized_pnl pos - closed_pnl pos delta price))"

text \<open>Every stored quantity is an \<open>int64_t\<close> value.\<close>

definition quantities_in_range :: "ExecutionEngine \<Rightarrow> bool" where
  "quantities_in_range s = (\<forall>symbol pos. positions s symbol = Some pos \<longrightarrow> in_i64 (p_quantity pos))"


section \<open>The position-size gate of the specification\<close>




section \<open>Orderbook: updates beyond the fixed depth\<close>

text \<open>
  C10. For every orderbook and every level index of at least 25
  (\<open>MAX_ORDERBOOK_LEVELS\<close>), \<open>update_bid\<close> and \<open>update_ask\<close> return the orderbook
  unchanged: both sides, both depth counts, the sequence number and the timestamp.
\<close>

theorem update_level_out_of_range_unchanged:
  "MAX_ORDERBOOK_LEVELS \<le> level \<Longrightarrow>
     update_bid b level p q = b \<and> update_ask b level p q = b"
  by (simp add: update_bid_def update_ask_def)

theorem update_level_out_of_range_unchanged_witness:
  "MAX_ORDERBOOK_LEVELS \<le> 25
   \<and> update_bid new_orderbook 25 100 7 = new_orderbook
   \<and> update_ask new_orderbook 25 100 7 = new_orderbook"
  using update_level_out_of_range_unchanged [of 25 new_orderbook 100 7]
  by (simp add: MAX_ORDERBOOK_LEVELS_def)


section \<open>Orderbook: imbalance\<close>

lemma i64_id: "in_i64 x \<Longrightarrow> i64 x = x"
  by (simp add: i64_def in_i64_def)

lemma in_i64_i64: "in_i64 (i64 x)"
  unfolding i64_def in_i64_def
  by (smt (verit) pos_mod_bound pos_mod_sign)

lemma foldl_add64_sum:
  "\<forall>l\<in>set ls. 0 \<le> pl_quantity l \<Longrightarrow> 0 \<le> acc \<Longrightarrow>
   acc + sum_list (map pl_quantity ls) \<le> 9223372036854775807 \<Longrightarrow>
   foldl (\<lambda>total l. add64 total (pl_quantity l)) acc ls = acc + sum_list (map pl_quantity ls)"
proof (induction ls arbitrary: acc)
  case Nil
  then show ?case by simp
next
  case (Cons l ls)
  have nn: "0 \<le> sum_list (map pl_quantity ls)"
    using Cons.prems(1) by (intro sum_list_nonneg) auto
  have q: "0 \<le> pl_quantity l" using Cons.prems(1) by simp
  have "in_i64 (acc + pl_quantity l)"
    using Cons.prems nn q by (simp add: in_i64_def)
  then have step: "add64 acc (pl_quantity l) = acc + pl_quantity l"
    by (simp add: add64_def i64_id)
  show ?case
    using Cons.IH [of "acc + pl_quantity l"] Cons.prems q step
    by (simp add: add.assoc)
qed

lemma replicate_numeral_unfold:
  "replicate (numeral k) x = x # replicate (pred_numeral k) x"
  by (simp add: numeral_eq_Suc)

lemma sum_take_nonneg:
  "\<forall>l\<in>set ls. 0 \<le> pl_quantity l \<Longrightarrow> 0 \<le> sum_list (map pl_quantity (take n ls))"
  by (intro sum_list_nonneg) (auto dest: in_set_takeD)

lemma total_bid_liquidity_exact:
  assumes "\<forall>l\<in>set (bids b). 0 \<le> pl_quantity l"
    and "bid_liquidity b levels \<le> 9223372036854775807"
  shows "total_bid_liquidity b levels = bid_liquidity b levels"
proof -
  have "\<forall>l\<in>set (take (min levels (bid_count b)) (bids b)). 0 \<le> pl_quantity l"
    using assms(1) by (auto dest: in_set_takeD)
  then show ?thesis
    using assms(2) foldl_add64_sum [of "take (min levels (bid_count b)) (bids b)" 0]
    by (simp add: total_bid_liquidity_def bid_liquidity_def)
qed

lemma total_ask_liquidity_exact:
  assumes "\<forall>l\<in>set (asks b). 0 \<le> pl_quantity l"
    and "ask_liquidity b levels \<le> 9223372036854775807"
  shows "total_ask_liquidity b levels = ask_liquidity b levels"
proof -
  have "\<forall>l\<in>set (take (min levels (ask_count b)) (asks b)). 0 \<le> pl_quantity l"
    using assms(1) by (auto dest: in_set_takeD)
  then show ?thesis
    using assms(2) foldl_add64_sum [of "take (min levels (ask_count b)) (asks b)" 0]
    by (simp add: total_ask_liquidity_def ask_liquidity_def)
qed

text \<open>
  C8 (as amended). For every orderbook whose level quantities are non-negative and whose
  bid and ask liquidity over the first \<open>levels\<close> levels together fit a signed 64-bit
  integer, \<open>imbalance levels\<close> is \<open>(bidLiquidity - askLiquidity) / (bidLiquidity + askLiquidity)\<close>,
  it is 0 when the total liquidity is 0, and it lies in \<open>[-1, 1]\<close>.
\<close>

theorem imbalance_formula_and_bounds:
  assumes bq: "\<forall>l\<in>set (bids b). 0 \<le> pl_quantity l"
    and aq: "\<forall>l\<in>set (asks b). 0 \<le> pl_quantity l"
    and fits: "bid_liquidity b levels + ask_liquidity b levels \<le> 9223372036854775807"
  shows "imbalance b levels =
           (if bid_liquidity b levels + ask_liquidity b levels = 0 then 0
            else real_of_int (bid_liquidity b levels - ask_liquidity b levels)
                 / real_of_int (bid_liquidity b levels + ask_liquidity b levels))
         \<and> - 1 \<le> imbalance b levels \<and> imbalance b levels \<le> 1"
proof -
  let ?B = "bid_liquidity b levels" and ?A = "ask_liquidity b levels"
  have B0: "0 \<le> ?B" using bq by (simp add: bid_liquidity_def sum_take_nonneg)
  have A0: "0 \<le> ?A" using aq by (simp add: ask_liquidity_def sum_take_nonneg)
  have tb: "total_bid_liquidity b levels = ?B"
    using total_bid_liquidity_exact [OF bq] fits A0 by simp
  have ta: "total_ask_liquidity b levels = ?A"
    using total_ask_liquidity_exact [OF aq] fits B0 by simp
  have tot: "add64 ?B ?A = ?B + ?A"
    using fits A0 B0 by (simp add: add64_def i64_id in_i64_def)
  have dif: "sub64 ?B ?A = ?B - ?A"
    using fits A0 B0 by (simp add: sub64_def i64_id in_i64_def)
  have eq: "imbalance b levels =
      (if ?B + ?A = 0 then 0 else real_of_int (?B - ?A) / real_of_int (?B + ?A))"
    by (simp add: imbalance_def tb ta tot dif Let_def)
  have lo: "- 1 \<le> imbalance b levels"
  proof (cases "?B + ?A = 0")
    case True
    then show ?thesis by (simp add: eq)
  next
    case False
    then have pos: "0 < real_of_int (?B + ?A)" using A0 B0 by simp
    have "- real_of_int (?B + ?A) \<le> real_of_int (?B - ?A)" using B0 by simp
    then have "- 1 \<le> real_of_int (?B - ?A) / real_of_int (?B + ?A)"
      using pos by (simp add: pos_le_divide_eq)
    then show ?thesis using False by (simp add: eq)
  qed
  have hi: "imbalance b levels \<le> 1"
  proof (cases "?B + ?A = 0")
    case True
    then show ?thesis by (simp add: eq)
  next
    case False
    then have pos: "0 < real_of_int (?B + ?A)" using A0 B0 by simp
    have "real_of_int (?B - ?A) \<le> real_of_int (?B + ?A)" using A0 by simp
    then have "real_of_int (?B - ?A) / real_of_int (?B + ?A) \<le> 1"
      using pos by (simp add: pos_divide_le_eq)
    then show ?thesis using False by (simp add: eq)
  qed
  show ?thesis using eq lo hi by blast
qed

lemmas book_eval = update_bid_def update_ask_def new_orderbook_def MAX_ORDERBOOK_LEVELS_def
  empty_level_def Let_def replicate_numeral_unfold

theorem imbalance_formula_and_bounds_witness:
  "imbalance (update_ask (update_bid new_orderbook 0 100000000 3000000000) 0 101000000 1000000000) 5 = 1 / 2
   \<and> - 1 \<le> imbalance (update_ask (update_bid new_orderbook 0 100000000 3000000000) 0 101000000 1000000000) 5
   \<and> imbalance (update_ask (update_bid new_orderbook 0 100000000 3000000000) 0 101000000 1000000000) 5 \<le> 1"
proof -
  let ?b = "update_ask (update_bid new_orderbook 0 100000000 3000000000) 0 101000000 1000000000"
  have h1: "\<forall>l\<in>set (bids ?b). 0 \<le> pl_quantity l"
    by (simp add: book_eval)
  have h2: "\<forall>l\<in>set (asks ?b). 0 \<le> pl_quantity l"
    by (simp add: book_eval)
  have h3: "bid_liquidity ?b 5 + ask_liquidity ?b 5 \<le> 9223372036854775807"
    by (simp add: bid_liquidity_def ask_liquidity_def book_eval)
  have v: "bid_liquidity ?b 5 = 3000000000 \<and> ask_liquidity ?b 5 = 1000000000"
    by (simp add: bid_liquidity_def ask_liquidity_def book_eval)
  show ?thesis
    using imbalance_formula_and_bounds [OF h1 h2 h3] v by simp
qed

text \<open>
  Without the bound on the sums the claim fails: two bid levels of \<open>2^63 - 1\<close> nano-units
  wrap the bid sum to \<open>-2\<close>, and against one ask of quantity 1 the result is 3.
\<close>

theorem imbalance_bounds_counterexample:
  "\<not> imbalance (update_bid (update_bid (update_ask new_orderbook 0 1000000 1)
         0 1000000 9223372036854775807) 1 999999 9223372036854775807) 5 \<le> 1"
  by (simp add: imbalance_def total_bid_liquidity_def total_ask_liquidity_def
      add64_def sub64_def i64_def book_eval)


section \<open>Orderbook: estimated execution price\<close>

lemma sdiv_nonneg: "0 \<le> a \<Longrightarrow> 0 \<le> b \<Longrightarrow> a sdiv b = a div (b::int)"
  by (simp add: signed_divide_int_def sgn_if)

lemma sdiv_scale_bounds:
  assumes "0 \<le> a"
  shows "0 \<le> a sdiv QUANTITY_SCALE" and "a sdiv QUANTITY_SCALE \<le> a"
    and "(a sdiv QUANTITY_SCALE) * QUANTITY_SCALE \<le> a"
proof -
  have e: "a sdiv QUANTITY_SCALE = a div 1000000000"
    using assms by (simp add: sdiv_nonneg QUANTITY_SCALE_def)
  show "0 \<le> a sdiv QUANTITY_SCALE" using assms by (simp add: e)
  show "a sdiv QUANTITY_SCALE \<le> a" using assms by (simp add: e)
  have "a div 1000000000 * 1000000000 = a - a mod 1000000000"
    by (simp add: minus_mod_eq_div_mult)
  moreover have "0 \<le> a mod 1000000000" by simp
  ultimately have "a div 1000000000 * 1000000000 \<le> a" by linarith
  then show "(a sdiv QUANTITY_SCALE) * QUANTITY_SCALE \<le> a"
    by (simp only: e) (simp add: QUANTITY_SCALE_def)
qed

lemma greedy_fills_nonneg: "\<forall>f\<in>set (greedy_fills need ls). 0 \<le> f"
  by (induction ls arbitrary: need) (auto simp: Let_def)

lemma greedy_fills_length: "length (greedy_fills need ls) = length ls"
  by (induction ls arbitrary: need) (auto simp: Let_def)

lemma exact_notional_nonneg:
  "\<forall>l\<in>set ls. 0 \<le> pl_price l \<Longrightarrow> 0 \<le> exact_notional need ls"
  unfolding exact_notional_def
  by (induction ls arbitrary: need) (auto simp: Let_def)

lemma truncated_notional_nonneg:
  "\<forall>l\<in>set ls. 0 \<le> pl_price l \<Longrightarrow> 0 \<le> truncated_notional need ls"
  unfolding truncated_notional_def
proof (induction ls arbitrary: need)
  case Nil
  then show ?case by simp
next
  case (Cons l ls)
  have "0 \<le> pl_price l * max 0 (min need (pl_quantity l))" using Cons.prems by simp
  then have "0 \<le> (pl_price l * max 0 (min need (pl_quantity l))) sdiv QUANTITY_SCALE"
    by (rule sdiv_scale_bounds(1))
  then show ?case using Cons by (simp add: Let_def)
qed

lemma truncated_le_exact:
  "\<forall>l\<in>set ls. 0 \<le> pl_price l \<Longrightarrow>
     truncated_notional need ls * QUANTITY_SCALE \<le> exact_notional need ls"
  unfolding truncated_notional_def exact_notional_def
proof (induction ls arbitrary: need)
  case Nil
  then show ?case by simp
next
  case (Cons l ls)
  have "0 \<le> pl_price l * max 0 (min need (pl_quantity l))" using Cons.prems by simp
  then have "((pl_price l * max 0 (min need (pl_quantity l))) sdiv QUANTITY_SCALE) * QUANTITY_SCALE
      \<le> pl_price l * max 0 (min need (pl_quantity l))"
    by (rule sdiv_scale_bounds(3))
  then show ?case using Cons.IH [of "need - max 0 (min need (pl_quantity l))"] Cons.prems
    by (simp add: Let_def algebra_simps)
qed

lemma filled_quantity_closed:
  "\<forall>l\<in>set ls. 0 \<le> pl_quantity l \<Longrightarrow>
     filled_quantity need ls = max 0 (min need (sum_list (map pl_quantity ls)))"
  unfolding filled_quantity_def
proof (induction ls arbitrary: need)
  case Nil
  then show ?case by simp
next
  case (Cons l ls)
  have "0 \<le> sum_list (map pl_quantity ls)"
    using Cons.prems by (intro sum_list_nonneg) auto
  then show ?case
    using Cons.IH [of "need - max 0 (min need (pl_quantity l))"] Cons.prems
    by (auto simp: Let_def max_def min_def)
qed

lemma spec_Cons:
  "filled_quantity r (l # ls) =
     max 0 (min r (pl_quantity l)) + filled_quantity (r - max 0 (min r (pl_quantity l))) ls"
  "exact_notional r (l # ls) =
     pl_price l * max 0 (min r (pl_quantity l))
       + exact_notional (r - max 0 (min r (pl_quantity l))) ls"
  "truncated_notional r (l # ls) =
     (pl_price l * max 0 (min r (pl_quantity l))) sdiv QUANTITY_SCALE
       + truncated_notional (r - max 0 (min r (pl_quantity l))) ls"
  by (simp_all add: filled_quantity_def exact_notional_def truncated_notional_def Let_def)

lemma spec_Nil:
  "filled_quantity r [] = 0" "exact_notional r [] = 0" "truncated_notional r [] = 0"
  by (simp_all add: filled_quantity_def exact_notional_def truncated_notional_def)

lemma nothing_needed:
  "r \<le> 0 \<Longrightarrow>
     filled_quantity r ls = 0 \<and> exact_notional r ls = 0 \<and> truncated_notional r ls = 0"
proof (induction ls)
  case Nil
  then show ?case by (simp add: spec_Nil)
next
  case (Cons l ls)
  have z: "max 0 (min r (pl_quantity l)) = 0" using Cons.prems by simp
  show ?case using Cons by (simp add: spec_Cons z)
qed

lemma execution_loop_closed:
  assumes "\<forall>l\<in>set ls. 0 \<le> pl_quantity l \<and> 0 \<le> pl_price l"
    and "0 \<le> w" and "0 \<le> f"
    and "f + max 0 r \<le> 9223372036854775807"
    and "w * QUANTITY_SCALE + exact_notional r ls \<le> 9223372036854775807"
  shows "execution_loop ls r w f = (w + truncated_notional r ls, f + filled_quantity r ls)"
  using assms
proof (induction ls arbitrary: r w f)
  case Nil
  then show ?case by (simp add: spec_Nil)
next
  case (Cons l ls)
  show ?case
  proof (cases "0 < r")
    case False
    then show ?thesis using nothing_needed [of r "l # ls"] by simp
  next
    case True
    define f0 where "f0 = max 0 (min r (pl_quantity l))"
    define d where "d = (pl_price l * f0) sdiv QUANTITY_SCALE"
    have q: "0 \<le> pl_quantity l" and p: "0 \<le> pl_price l" using Cons.prems(1) by simp_all
    have fill: "min r (pl_quantity l) = f0" using True q by (simp add: f0_def)
    have f0b: "0 \<le> f0" "f0 \<le> r" using True q by (simp_all add: f0_def)
    have pf: "0 \<le> pl_price l * f0" using p f0b by simp
    have ex0: "0 \<le> exact_notional (r - f0) ls"
      using Cons.prems(1) by (intro exact_notional_nonneg) auto
    have ws: "w \<le> w * QUANTITY_SCALE" using Cons.prems(2) by (simp add: QUANTITY_SCALE_def)
    have tot: "w * QUANTITY_SCALE + pl_price l * f0 + exact_notional (r - f0) ls
        \<le> 9223372036854775807"
      using Cons.prems(5) by (simp add: spec_Cons f0_def)
    have db: "0 \<le> d" "d \<le> pl_price l * f0" "d * QUANTITY_SCALE \<le> pl_price l * f0"
      using sdiv_scale_bounds [OF pf] by (simp_all add: d_def)
    have m: "mul64 (pl_price l) f0 = pl_price l * f0"
      using pf tot ex0 ws Cons.prems(2) by (simp add: mul64_def i64_id in_i64_def)
    have dv: "div64 (pl_price l * f0) QUANTITY_SCALE = d"
      using db pf tot ex0 ws Cons.prems(2) by (simp add: div64_def d_def [symmetric] i64_id in_i64_def)
    have aw: "add64 w d = w + d"
      using db tot ex0 ws Cons.prems(2) by (simp add: add64_def i64_id in_i64_def)
    have af: "add64 f f0 = f + f0"
      using f0b Cons.prems(3,4) True by (simp add: add64_def i64_id in_i64_def)
    have sr: "sub64 r f0 = r - f0"
      using f0b Cons.prems(3,4) True by (simp add: sub64_def i64_id in_i64_def)
    have step: "execution_loop (l # ls) r w f = execution_loop ls (r - f0) (w + d) (f + f0)"
      using True by (simp add: fill m dv aw af sr Let_def)
    have ih: "execution_loop ls (r - f0) (w + d) (f + f0)
        = (w + d + truncated_notional (r - f0) ls, f + f0 + filled_quantity (r - f0) ls)"
    proof (rule Cons.IH)
      show "\<forall>l\<in>set ls. 0 \<le> pl_quantity l \<and> 0 \<le> pl_price l" using Cons.prems(1) by simp
      show "0 \<le> w + d" using Cons.prems(2) db by simp
      show "0 \<le> f + f0" using Cons.prems(3) f0b by simp
      show "f + f0 + max 0 (r - f0) \<le> 9223372036854775807"
        using Cons.prems(4) f0b True by simp
      show "(w + d) * QUANTITY_SCALE + exact_notional (r - f0) ls \<le> 9223372036854775807"
        using tot db by (simp add: algebra_simps)
    qed
    show ?thesis
      by (simp only: step ih) (simp add: spec_Cons f0_def [symmetric] d_def)
  qed
qed

lemma truncated_exact_when_divisible:
  "\<forall>(l, f)\<in>set (zip ls (greedy_fills need ls)). QUANTITY_SCALE dvd pl_price l * f \<Longrightarrow>
     truncated_notional need ls * QUANTITY_SCALE = exact_notional need ls"
proof (induction ls arbitrary: need)
  case Nil
  then show ?case by (simp add: spec_Nil)
next
  case (Cons l ls)
  define f0 where "f0 = max 0 (min need (pl_quantity l))"
  have dv: "QUANTITY_SCALE dvd pl_price l * f0"
    using Cons.prems by (simp add: Let_def f0_def)
  have tl: "\<forall>(l, f)\<in>set (zip ls (greedy_fills (need - f0) ls)). QUANTITY_SCALE dvd pl_price l * f"
    using Cons.prems by (simp add: Let_def f0_def)
  have "(pl_price l * f0) sdiv QUANTITY_SCALE * QUANTITY_SCALE = pl_price l * f0"
    using dv by (auto simp: signed_divide_int_def QUANTITY_SCALE_def sgn_if)
  then show ?case
    using Cons.IH [OF tl] by (simp add: spec_Cons f0_def [symmetric] algebra_simps)
qed

lemma sdiv_le_self: "0 \<le> a \<Longrightarrow> 0 < b \<Longrightarrow> 0 \<le> a sdiv b \<and> a sdiv b \<le> (a::int)"
proof -
  assume a: "0 \<le> a" and b: "0 < b"
  have e: "a sdiv b = a div b" using a b by (simp add: sdiv_nonneg)
  have "a div b \<le> a div 1" using a b by (intro zdiv_mono2) auto
  then show ?thesis using a b by (simp add: e pos_imp_zdiv_nonneg_iff)
qed

text \<open>
  C5 (as amended). For every orderbook whose walked levels have non-negative prices and
  quantities and whose filled notional fits a signed 64-bit integer,
  \<open>estimate_execution_price\<close> walks the opposing side (asks for a buy, bids for a sell)
  from the best level outward, each level contributing what is still needed up to its
  quantity, so that the filled quantity is \<open>max 0 (min qty liquidity)\<close>. Each level's
  price times fill is divided by \<open>10^9\<close> with truncation before it is added, and the
  result is that sum times \<open>10^9\<close> divided by the filled quantity, truncated. It is the
  truncated quantity-weighted average price whenever every product is a multiple of
  \<open>10^9\<close>. It returns 0 whenever nothing was filled. With asks (10.0, 5) and (11.0, 5),
  a buy of 8 is priced at 10.375.
\<close>

theorem estimate_execution_price_fixed_point:
  assumes lv: "\<forall>l\<in>set (opposing_levels b side). 0 \<le> pl_quantity l \<and> 0 \<le> pl_price l"
    and rq: "qty \<le> 9223372036854775807"
    and fits: "exact_notional qty (opposing_levels b side) \<le> 9223372036854775807"
  shows "estimate_execution_price b side qty =
           (if 0 < filled_quantity qty (opposing_levels b side)
            then (truncated_notional qty (opposing_levels b side) * QUANTITY_SCALE)
                   sdiv filled_quantity qty (opposing_levels b side)
            else 0)
       \<and> filled_quantity qty (opposing_levels b side) =
           max 0 (min qty (sum_list (map pl_quantity (opposing_levels b side))))
       \<and> (filled_quantity qty (opposing_levels b side) = 0 \<longrightarrow>
            estimate_execution_price b side qty = 0)
       \<and> ((\<forall>(l, f)\<in>set (zip (opposing_levels b side) (greedy_fills qty (opposing_levels b side))).
              QUANTITY_SCALE dvd pl_price l * f)
            \<and> 0 < filled_quantity qty (opposing_levels b side) \<longrightarrow>
            estimate_execution_price b side qty =
              exact_notional qty (opposing_levels b side)
                sdiv filled_quantity qty (opposing_levels b side))
       \<and> estimate_execution_price
           (update_ask (update_ask new_orderbook 0 10000000 5000000000) 1 11000000 5000000000)
           BUY 8000000000 = 10375000"
proof -
  let ?ls = "opposing_levels b side"
  let ?F = "filled_quantity qty ?ls" and ?W = "truncated_notional qty ?ls"
  have q: "\<forall>l\<in>set ?ls. 0 \<le> pl_quantity l" and p: "\<forall>l\<in>set ?ls. 0 \<le> pl_price l"
    using lv by auto
  have fq: "?F = max 0 (min qty (sum_list (map pl_quantity ?ls)))"
    by (rule filled_quantity_closed [OF q])
  have loop: "execution_loop ?ls qty 0 0 = (?W, ?F)"
    using execution_loop_closed [OF lv, of 0 0 qty] rq fits by simp
  have W0: "0 \<le> ?W" by (rule truncated_notional_nonneg [OF p])
  have WS: "?W * QUANTITY_SCALE \<le> exact_notional qty ?ls" by (rule truncated_le_exact [OF p])
  have WS0: "0 \<le> ?W * QUANTITY_SCALE" using W0 by (simp add: QUANTITY_SCALE_def)
  have m: "mul64 ?W QUANTITY_SCALE = ?W * QUANTITY_SCALE"
    using WS WS0 fits by (simp add: mul64_def i64_id in_i64_def)
  have dv: "0 < ?F \<Longrightarrow> div64 (?W * QUANTITY_SCALE) ?F = (?W * QUANTITY_SCALE) sdiv ?F"
    using sdiv_le_self [OF WS0, of ?F] WS fits by (simp add: div64_def i64_id in_i64_def)
  have code: "estimate_execution_price b side qty = (case execution_loop ?ls qty 0 0 of
      (weighted_sum, filled) \<Rightarrow>
        if filled > 0 then div64 (mul64 weighted_sum QUANTITY_SCALE) filled else 0)"
    by (simp add: estimate_execution_price_def opposing_levels_def)
  have main: "estimate_execution_price b side qty =
      (if 0 < ?F then (?W * QUANTITY_SCALE) sdiv ?F else 0)"
    using dv by (simp add: code loop m)
  have zero: "?F = 0 \<longrightarrow> estimate_execution_price b side qty = 0"
    by (simp add: main)
  have exact: "(\<forall>(l, f)\<in>set (zip ?ls (greedy_fills qty ?ls)). QUANTITY_SCALE dvd pl_price l * f)
      \<and> 0 < ?F \<longrightarrow> estimate_execution_price b side qty = exact_notional qty ?ls sdiv ?F"
    using truncated_exact_when_divisible [of ?ls qty] by (simp add: main)
  have example: "estimate_execution_price
      (update_ask (update_ask new_orderbook 0 10000000 5000000000) 1 11000000 5000000000)
      BUY 8000000000 = 10375000"
    by (simp add: estimate_execution_price_def book_eval add64_def sub64_def mul64_def div64_def
        i64_def QUANTITY_SCALE_def signed_divide_int_def)
  show ?thesis using main fq zero exact example by blast
qed

theorem estimate_execution_price_fixed_point_witness:
  "estimate_execution_price
     (update_ask (update_ask new_orderbook 0 10000000 5000000000) 1 11000000 5000000000)
     BUY 8000000000 = 83000000 * QUANTITY_SCALE sdiv 8000000000
   \<and> filled_quantity 8000000000 (opposing_levels
       (update_ask (update_ask new_orderbook 0 10000000 5000000000) 1 11000000 5000000000) BUY)
     = 8000000000"
proof -
  let ?b = "update_ask (update_ask new_orderbook 0 10000000 5000000000) 1 11000000 5000000000"
  have ls: "opposing_levels ?b BUY =
      [\<lparr>pl_price = 10000000, pl_quantity = 5000000000, pl_order_count = 0\<rparr>,
       \<lparr>pl_price = 11000000, pl_quantity = 5000000000, pl_order_count = 0\<rparr>]"
    by (simp add: opposing_levels_def book_eval)
  have h1: "\<forall>l\<in>set (opposing_levels ?b BUY). 0 \<le> pl_quantity l \<and> 0 \<le> pl_price l"
    unfolding ls by simp
  have h2: "(8000000000::int) \<le> 9223372036854775807" by simp
  have h3: "exact_notional 8000000000 (opposing_levels ?b BUY) \<le> 9223372036854775807"
    unfolding ls by (simp add: exact_notional_def)
  have v: "filled_quantity 8000000000 (opposing_levels ?b BUY) = 8000000000
      \<and> truncated_notional 8000000000 (opposing_levels ?b BUY) = 83000000"
    unfolding ls by (simp add: filled_quantity_def truncated_notional_def QUANTITY_SCALE_def
        signed_divide_int_def)
  show ?thesis
    using estimate_execution_price_fixed_point [OF h1 h2 h3] v by simp
qed

text \<open>
  The claim as stated fails in two ways. On small fills the truncation shows: a level of
  price 0.0001 and quantity 0.001 fills a buy of 0.001 completely and the estimate is 0;
  a buy of 0.001 against a single level at 50000.123456 is priced at 50000.123, not at the
  level's price. On large fills the product of price and fill leaves the 64-bit range: a
  buy of 29,000 against the best ask of the demonstration book of \<open>main.cpp\<close>, 80,000 at
  0.3201, has a notional of 9,282.90 and is priced at -0.315994.
\<close>

theorem estimate_execution_price_counterexample:
  "estimate_execution_price (update_ask new_orderbook 0 100 1000000) BUY 1000000 = 0
   \<and> total_ask_liquidity (update_ask new_orderbook 0 100 1000000) 25 = 1000000
   \<and> estimate_execution_price (update_ask new_orderbook 0 50000123456 1000000000) BUY 1000000
       = 50000123000
   \<and> estimate_execution_price (update_ask new_orderbook 0 320100 80000000000000)
         BUY 29000000000000 = - 315994
   \<and> exact_notional 29000000000000
         (opposing_levels (update_ask new_orderbook 0 320100 80000000000000) BUY)
       = 9282900000000000000"
  by (simp add: estimate_execution_price_def total_ask_liquidity_def book_eval add64_def
      sub64_def mul64_def div64_def i64_def QUANTITY_SCALE_def signed_divide_int_def
      exact_notional_def opposing_levels_def)


section \<open>SPSC queue: bounded FIFO\<close>

lemma and_MASK: "x AND MASK (2 ^ k) = x mod 2 ^ k"
proof -
  have "MASK (2 ^ k) = mask k" by (simp add: MASK_def mask_eq_exp_minus_1)
  then show ?thesis by (simp only: take_bit_eq_mask [symmetric] take_bit_eq_mod)
qed

lemma mod_lt2: "x < 2 * C \<Longrightarrow> x mod C = (if x < C then x else x - (C::nat))"
  by (simp add: mod_if)

lemma length_unread: "length (unread C buf t n) = n"
  by (induction n arbitrary: t) auto

lemma unread_snoc:
  "t < C \<Longrightarrow> unread C buf t (Suc n) = unread C buf t n @ [buf ! ((t + n) mod C)]"
proof (induction n arbitrary: t)
  case 0
  then show ?case by simp
next
  case (Suc n)
  have lt: "(t + 1) mod C < C" using Suc.prems by simp
  have "((t + 1) mod C + n) mod C = (t + Suc n) mod C"
    by (simp add: mod_add_left_eq)
  then show ?case using Suc.IH [OF lt] by simp
qed

lemma unread_update:
  "t < C \<Longrightarrow> \<forall>i<n. (t + i) mod C \<noteq> h \<Longrightarrow> unread C (buf[h := v]) t n = unread C buf t n"
proof (induction n arbitrary: t)
  case 0
  then show ?case by simp
next
  case (Suc n)
  have lt: "(t + 1) mod C < C" using Suc.prems by simp
  have t: "t \<noteq> h" using Suc.prems(2) [rule_format, of 0] Suc.prems(1) by simp
  have "\<forall>i<n. ((t + 1) mod C + i) mod C \<noteq> h"
  proof (intro allI impI)
    fix i assume "i < n"
    then have "(t + Suc i) mod C \<noteq> h" using Suc.prems(2) by auto
    then show "((t + 1) mod C + i) mod C \<noteq> h" by (simp add: mod_add_left_eq)
  qed
  then show ?case using Suc.IH [OF lt] t by simp
qed

lemma held_lt: "0 < C \<Longrightarrow> held C q < C"
  by (simp add: held_def)

lemma ring_distance:
  fixes h t C i :: nat
  assumes "h < C" and "t < C"
  shows "(h + C - t) mod C = (if t \<le> h then h - t else h + C - (t::nat))"
proof -
  have "h + C - t < 2 * C" using assms by simp
  then have "(h + C - t) mod C = (if h + C - t < C then h + C - t else h + C - t - C)"
    by (rule mod_lt2)
  then show ?thesis using assms by auto
qed

lemma ring_succ: "x < (C::nat) \<Longrightarrow> Suc x mod C = (if Suc x < C then Suc x else 0)"
  by (simp add: mod_lt2)

lemma ring_succ_lt: "x < (C::nat) \<Longrightarrow> Suc x mod C < C"
  by simp

lemma ring_add:
  fixes h t C i :: nat
  assumes "t < C" and "i < C"
  shows "(t + i) mod C = (if t + i < C then t + i else t + i - (C::nat))"
  using assms by (intro mod_lt2) simp

lemma ring_push:
  fixes h t C i :: nat
  assumes "h < C" and "t < C" and "Suc h mod C \<noteq> t"
  shows "(Suc h mod C + C - t) mod C = Suc ((h + C - t) mod C)"
proof -
  have 1: "(Suc h mod C + C - t) mod C =
      (if t \<le> Suc h mod C then Suc h mod C - t else Suc h mod C + C - t)"
    by (rule ring_distance [OF ring_succ_lt [OF assms(1)] assms(2)])
  show ?thesis
    unfolding 1 ring_distance [OF assms(1,2)]
    using assms by (auto simp: ring_succ split: if_splits)
qed

lemma ring_pop:
  fixes h t C i :: nat
  assumes "h < C" and "t < C" and "t \<noteq> h"
  shows "Suc ((h + C - Suc t mod C) mod C) = (h + C - t) mod C"
proof -
  have 1: "(h + C - Suc t mod C) mod C =
      (if Suc t mod C \<le> h then h - Suc t mod C else h + C - Suc t mod C)"
    by (rule ring_distance [OF assms(1) ring_succ_lt [OF assms(2)]])
  show ?thesis
    unfolding 1 ring_distance [OF assms(1,2)]
    using assms by (auto simp: ring_succ split: if_splits)
qed

lemma ring_full:
  fixes h t C i :: nat
  assumes "h < C" and "t < C"
  shows "(Suc h mod C = t) = ((h + C - t) mod C = C - 1)"
  unfolding ring_distance [OF assms]
  using assms by (auto simp: ring_succ split: if_splits)

lemma ring_empty:
  fixes h t C i :: nat
  assumes "h < C" and "t < C"
  shows "(t = h) = ((h + C - t) mod C = 0)"
  unfolding ring_distance [OF assms]
  using assms by auto

lemma ring_head:
  fixes h t C i :: nat
  assumes "h < C" and "t < C"
  shows "(t + (h + C - t) mod C) mod C = h"
proof -
  have n: "(h + C - t) mod C < C" using assms by simp
  show ?thesis
    unfolding ring_add [OF assms(2) n]
    unfolding ring_distance [OF assms]
    using assms by auto
qed

lemma ring_before_head:
  fixes h t C i :: nat
  assumes "h < C" and "t < C" and "i < (h + C - t) mod C"
  shows "(t + i) mod C \<noteq> h"
proof -
  have n: "(h + C - t) mod C < C" using assms by simp
  then have i: "i < C" using assms(3) by simp
  have "i < (if t \<le> h then h - t else h + C - t)"
    using assms(3) unfolding ring_distance [OF assms(1,2)] .
  then show ?thesis
    unfolding ring_add [OF assms(2) i]
    using assms(1,2) by (auto split: if_splits)
qed

lemma contents_push:
  assumes "invar C q" and "Suc (q_head q) mod C \<noteq> q_tail q"
  shows "contents C (q\<lparr>q_buffer := (q_buffer q)[q_head q := v], q_head := Suc (q_head q) mod C\<rparr>)
         = contents C q @ [v]"
proof -
  let ?b = "(q_buffer q)[q_head q := v]"
  have t: "q_tail q < C" and h: "q_head q < C" and l: "length (q_buffer q) = C"
    using assms(1) by (auto simp: invar_def)
  have "unread C ?b (q_tail q) (Suc (held C q))
      = unread C ?b (q_tail q) (held C q) @ [?b ! ((q_tail q + held C q) mod C)]"
    by (rule unread_snoc [OF t])
  also have "unread C ?b (q_tail q) (held C q) = unread C (q_buffer q) (q_tail q) (held C q)"
    using ring_before_head [OF h t] by (intro unread_update [OF t]) (auto simp: held_def)
  also have "?b ! ((q_tail q + held C q) mod C) = v"
    using h l by (simp add: held_def ring_head [OF h t])
  finally show ?thesis
    by (simp add: contents_def held_def ring_push [OF h t assms(2)])
qed

lemma contents_pop:
  assumes "invar C q" and "q_tail q \<noteq> q_head q"
  shows "contents C q = q_buffer q ! q_tail q # contents C (q\<lparr>q_tail := Suc (q_tail q) mod C\<rparr>)"
proof -
  have t: "q_tail q < C" and h: "q_head q < C"
    using assms(1) by (auto simp: invar_def)
  have "held C q = Suc (held C (q\<lparr>q_tail := Suc (q_tail q) mod C\<rparr>))"
    by (simp add: held_def ring_pop [OF h t assms(2)])
  then show ?thesis by (simp add: contents_def)
qed

lemma length_contents: "length (contents C q) = held C q"
  by (simp add: contents_def length_unread)

lemma push_refines:
  assumes "invar (2 ^ k) q"
  shows "invar (2 ^ k) (snd (push (2 ^ k) q v))
       \<and> (fst (push (2 ^ k) q v), contents (2 ^ k) (snd (push (2 ^ k) q v)))
           = (if length (contents (2 ^ k) q) = 2 ^ k - 1 then (False, contents (2 ^ k) q)
              else (True, contents (2 ^ k) q @ [v]))
       \<and> (\<not> fst (push (2 ^ k) q v) \<longrightarrow> snd (push (2 ^ k) q v) = q)"
proof -
  have t: "q_tail q < 2 ^ k" and h: "q_head q < 2 ^ k"
    using assms by (auto simp: invar_def)
  show ?thesis
  proof (cases "Suc (q_head q) mod 2 ^ k = q_tail q")
    case True
    then have "held (2 ^ k) q = 2 ^ k - 1"
      using ring_full [OF h t] by (simp add: held_def)
    then show ?thesis using True assms
      by (simp add: push_def and_MASK length_contents Let_def)
  next
    case False
    then have "held (2 ^ k) q \<noteq> 2 ^ k - 1"
      using ring_full [OF h t] by (simp add: held_def)
    then show ?thesis using False assms contents_push [OF assms False, of v]
      by (simp add: push_def and_MASK length_contents invar_def Let_def)
  qed
qed

lemma pop_refines:
  assumes "invar (2 ^ k) q"
  shows "invar (2 ^ k) (snd (pop (2 ^ k) q))
       \<and> (fst (pop (2 ^ k) q), contents (2 ^ k) (snd (pop (2 ^ k) q)))
           = (case contents (2 ^ k) q of [] \<Rightarrow> (None, []) | x # r \<Rightarrow> (Some x, r))"
proof -
  have t: "q_tail q < 2 ^ k" and h: "q_head q < 2 ^ k"
    using assms by (auto simp: invar_def)
  show ?thesis
  proof (cases "q_tail q = q_head q")
    case True
    then have "held (2 ^ k) q = 0"
      using ring_empty [OF h t] by (simp add: held_def)
    then have "contents (2 ^ k) q = []"
      using length_contents [of "2 ^ k" q] by simp
    then show ?thesis using True assms by (simp add: pop_def Let_def)
  next
    case False
    then show ?thesis using assms contents_pop [OF assms False]
      by (simp add: pop_def and_MASK invar_def Let_def)
  qed
qed

lemma invar_new_queue: "invar (2 ^ k) (new_queue (2 ^ k) d)"
  by (simp add: invar_def new_queue_def)

lemma contents_new_queue: "contents (2 ^ k) (new_queue (2 ^ k) d) = []"
  by (simp add: contents_def held_def new_queue_def)

lemma spsc_step_refines:
  assumes "invar (2 ^ k) q" and "spsc_step (2 ^ k) q x = (r, q')"
  shows "invar (2 ^ k) q' \<and> fifo_step (2 ^ k) (contents (2 ^ k) q) x = (r, contents (2 ^ k) q')"
proof (cases x)
  case (Push v)
  show ?thesis
    using push_refines [OF assms(1), of v] assms(2) Push
    by (auto simp: split_beta split: if_splits)
next
  case Pop
  show ?thesis
    using pop_refines [OF assms(1)] assms(2) Pop
    by (auto simp: split_beta split: list.splits)
qed

lemma spsc_run_refines:
  "invar (2 ^ k) q \<Longrightarrow> spsc_run (2 ^ k) q ops = (rs, q') \<Longrightarrow>
     invar (2 ^ k) q' \<and> fifo_run (2 ^ k) (contents (2 ^ k) q) ops = (rs, contents (2 ^ k) q')"
proof (induction ops arbitrary: q rs q')
  case Nil
  then show ?case by simp
next
  case (Cons x ops)
  obtain r q1 where s: "spsc_step (2 ^ k) q x = (r, q1)" by (cases "spsc_step (2 ^ k) q x")
  obtain rs1 q2 where t: "spsc_run (2 ^ k) q1 ops = (rs1, q2)"
    by (cases "spsc_run (2 ^ k) q1 ops")
  have res: "rs = r # rs1" "q' = q2" using Cons.prems(2) s t by simp_all
  have 1: "invar (2 ^ k) q1" "fifo_step (2 ^ k) (contents (2 ^ k) q) x = (r, contents (2 ^ k) q1)"
    using spsc_step_refines [OF Cons.prems(1) s] by simp_all
  have 2: "invar (2 ^ k) q2"
    "fifo_run (2 ^ k) (contents (2 ^ k) q1) ops = (rs1, contents (2 ^ k) q2)"
    using Cons.IH [OF 1(1) t] by simp_all
  show ?case using 1 2 res by simp
qed

lemma size_q_held:
  assumes "invar (2 ^ k) q" and "k \<le> 64"
  shows "size_q (2 ^ k) q = held (2 ^ k) q"
proof -
  let ?h = "q_head q" and ?t = "q_tail q"
  define W :: nat where "W = 18446744073709551616"
  have W: "W = 2 ^ 64" by (simp add: W_def)
  have t: "?t < 2 ^ k" and h: "?h < 2 ^ k" using assms(1) by (auto simp: invar_def)
  have le: "(2::nat) ^ k \<le> W" unfolding W using assms(2) by (intro power_increasing) auto
  have dv: "(2::nat) ^ k dvd W" unfolding W using assms(2) by (rule le_imp_power_dvd)
  then obtain m where m: "W = 2 ^ k * m" by (auto elim: dvdE)
  have m1: "1 \<le> m" using m le by (cases m) (auto simp: W_def)
  have hW: "?h < W" and tW: "?t < W" using h t le by simp_all
  have w: "(?h + W - ?t) mod W = (if ?t \<le> ?h then ?h - ?t else ?h + W - ?t)"
    by (rule ring_distance [OF hW tW])
  have "((?h + W - ?t) mod W) mod 2 ^ k = (?h + 2 ^ k - ?t) mod 2 ^ k"
  proof (cases "?t \<le> ?h")
    case True
    have "(?h - ?t) mod 2 ^ k = ?h - ?t" using h by simp
    then show ?thesis using True by (simp add: w ring_distance [OF h t])
  next
    case False
    have "?h + W - ?t = (?h + 2 ^ k - ?t) + 2 ^ k * (m - 1)"
      using t m1 by (simp add: m algebra_simps)
    then have "(?h + W - ?t) mod 2 ^ k = (?h + 2 ^ k - ?t) mod 2 ^ k"
      by (simp only: mod_mult_self2)
    then show ?thesis using False by (simp add: w)
  qed
  then show ?thesis
    by (simp add: size_q_def and_MASK held_def W_def)
qed

text \<open>
  C6. For every sequence of pushes and pops on an SPSC queue of capacity \<open>C = 2^k\<close>, run
  sequentially from the empty queue, every call returns what the bounded FIFO list
  returns: a pop returns the oldest pushed value not yet popped (none when there is
  none), and a push returns false exactly when the queue holds \<open>C - 1\<close> elements, which
  is what \<open>capacity()\<close> reports. A failed push leaves the whole queue, and so every
  unread slot, as it was. For capacities up to \<open>2^64\<close>, \<open>size()\<close> is the number of
  elements held.
\<close>

theorem spsc_queue_is_bounded_fifo:
  assumes "spsc_run (2 ^ k) (new_queue (2 ^ k) d) ops = (rs, q)"
  shows "fifo_run (2 ^ k) [] ops = (rs, contents (2 ^ k) q)
       \<and> (fst (push (2 ^ k) q v) = False) = (length (contents (2 ^ k) q) = capacity (2 ^ k))
       \<and> (\<not> fst (push (2 ^ k) q v) \<longrightarrow> snd (push (2 ^ k) q v) = q)
       \<and> (k \<le> 64 \<longrightarrow> size_q (2 ^ k) q = length (contents (2 ^ k) q))
       \<and> capacity (2 ^ k) = 2 ^ k - 1"
proof -
  have r: "invar (2 ^ k) q" "fifo_run (2 ^ k) [] ops = (rs, contents (2 ^ k) q)"
    using spsc_run_refines [OF invar_new_queue assms] by (simp_all add: contents_new_queue)
  have p: "(fst (push (2 ^ k) q v) = False) = (length (contents (2 ^ k) q) = capacity (2 ^ k))"
    using push_refines [OF r(1), of v] by (auto simp: capacity_def split: if_splits)
  have u: "\<not> fst (push (2 ^ k) q v) \<longrightarrow> snd (push (2 ^ k) q v) = q"
    using push_refines [OF r(1), of v] by simp
  have s: "k \<le> 64 \<longrightarrow> size_q (2 ^ k) q = length (contents (2 ^ k) q)"
    using size_q_held [OF r(1)] by (simp add: length_contents)
  show ?thesis using r(2) p u s by (simp add: capacity_def)
qed

theorem spsc_queue_is_bounded_fifo_witness:
  "fifo_run (2 ^ 2) []
     [Push 1, Push 2, Push 3, Push 4, Pop, Push 5, Pop, Pop, Pop, Pop]
   = ([Pushed True, Pushed True, Pushed True, Pushed False, Popped (Some (1::nat)),
       Pushed True, Popped (Some 2), Popped (Some 3), Popped (Some 5), Popped None],
      contents (2 ^ 2) \<lparr>q_head = 0, q_tail = 0, q_buffer = [1, 2, 3, 5]\<rparr>)
   \<and> fst (spsc_run (2 ^ 2) (new_queue (2 ^ 2) 0)
       [Push 1, Push 2, Push 3, Push 4, Pop, Push 5, Pop, Pop, Pop, Pop])
     = [Pushed True, Pushed True, Pushed True, Pushed False, Popped (Some (1::nat)),
        Pushed True, Popped (Some 2), Popped (Some 3), Popped (Some 5), Popped None]"
proof -
  have run: "spsc_run (2 ^ 2) (new_queue (2 ^ 2) 0)
      [Push 1, Push 2, Push 3, Push 4, Pop, Push 5, Pop, Pop, Pop, Pop]
    = ([Pushed True, Pushed True, Pushed True, Pushed False, Popped (Some (1::nat)),
        Pushed True, Popped (Some 2), Popped (Some 3), Popped (Some 5), Popped None],
       \<lparr>q_head = 0, q_tail = 0, q_buffer = [1, 2, 3, 5]\<rparr>)"
    by code_simp
  show ?thesis
    using spsc_queue_is_bounded_fifo [OF run] run by simp
qed


section \<open>Object pool: exhaustion and reuse\<close>

lemma free_chain_update:
  "u \<notin> set xs \<Longrightarrow> free_chain (nx(u := v)) p xs = free_chain nx p xs"
  by (induction xs arbitrary: p) auto

lemma free_chain_new:
  "k < N \<Longrightarrow> free_chain (\<lambda>i. if i + 1 < N then Some (i + 1) else None) (Some k) [k..<N]"
proof (induction "N - k" arbitrary: k)
  case 0
  then show ?case by simp
next
  case (Suc d)
  show ?case
  proof (cases "Suc k < N")
    case True
    have "free_chain (\<lambda>i. if i + 1 < N then Some (i + 1) else None) (Some (Suc k)) [Suc k..<N]"
      using Suc.hyps(1) [of "Suc k"] Suc.hyps(2) True by simp
    then show ?thesis using True Suc.prems by (simp add: upt_conv_Cons)
  next
    case False
    then have "[k..<N] = [k]" using Suc.prems by (simp add: upt_conv_Cons)
    then show ?thesis using False by simp
  qed
qed

lemma pool_inv_new: "0 < N \<Longrightarrow> pool_inv N (new_pool N) {}"
  unfolding pool_inv_def new_pool_def
  using free_chain_new [of 0 N] by (intro exI [of _ "[0..<N]"]) simp

lemma live_card_le:
  assumes "live \<subseteq> {0..<N}"
  shows "card live \<le> N"
  using card_mono [OF _ assms] by simp

lemma live_full_iff:
  assumes "live \<subseteq> {0..<N}"
  shows "({0..<N} - live = {}) = (card live = N)"
proof
  assume "{0..<N} - live = {}"
  then have "live = {0..<N}" using assms by auto
  then show "card live = N" by simp
next
  assume "card live = N"
  then have "live = {0..<N}" using assms card_subset_eq [of "{0..<N}" live] by simp
  then show "{0..<N} - live = {}" by simp
qed

lemma allocate_exhausted_iff:
  assumes "pool_inv N p live"
  shows "(fst (allocate p) = None) = (allocated p = N)"
proof -
  obtain xs where xs: "free_chain (node_next p) (free_list p) xs"
    "set xs = {0..<N} - live" "live \<subseteq> {0..<N}" "allocated p = card live"
    using assms by (auto simp: pool_inv_def)
  have "(fst (allocate p) = None) = (free_list p = None)"
    by (simp add: allocate_def pop_free_def split: option.splits)
  also have "\<dots> = (xs = [])" using xs(1) by (cases xs) auto
  also have "\<dots> = ({0..<N} - live = {})" by (simp add: xs(2) [symmetric])
  also have "\<dots> = (card live = N)" by (rule live_full_iff [OF xs(3)])
  finally show ?thesis by (simp add: xs(4))
qed

lemma allocate_keeps_inv:
  assumes "pool_inv N p live" and "N < 18446744073709551616" and "allocate p = (Some obj, p1)"
  shows "pool_inv N p1 (insert obj live) \<and> obj \<notin> live \<and> obj < N
       \<and> allocated p1 = allocated p + 1"
proof -
  obtain xs where xs: "free_chain (node_next p) (free_list p) xs" "distinct xs"
    "set xs = {0..<N} - live" "live \<subseteq> {0..<N}" "allocated p = card live"
    using assms(1) by (auto simp: pool_inv_def)
  have fl: "free_list p = Some obj"
    using assms(3) by (auto simp: allocate_def pop_free_def split: option.splits)
  then obtain ys where ys: "xs = obj # ys" "free_chain (node_next p) (node_next p obj) ys"
    using xs(1) by (cases xs) auto
  have mem: "obj \<in> {0..<N} - live" using xs(3) ys(1) by auto
  have fin: "finite live" using xs(4) finite_subset by blast
  have lt: "card live < N"
    using mem live_card_le [OF xs(4)] live_full_iff [OF xs(4)] by (cases "card live = N") auto
  have p1: "p1 = p\<lparr>free_list := node_next p obj,
      allocated := (allocated p + 1) mod 18446744073709551616\<rparr>"
    using assms(3) fl by (simp add: allocate_def pop_free_def)
  have al: "allocated p1 = card live + 1"
    using lt assms(2) by (simp add: p1 xs(5))
  have "free_chain (node_next p1) (free_list p1) ys" using ys(2) by (simp add: p1)
  moreover have "distinct ys" using xs(2) ys(1) by simp
  moreover have "set ys = {0..<N} - insert obj live" using xs(2,3) ys(1) by auto
  moreover have "insert obj live \<subseteq> {0..<N}" using xs(4) mem by auto
  moreover have "allocated p1 = card (insert obj live)" using al fin mem by simp
  ultimately have "pool_inv N p1 (insert obj live)" unfolding pool_inv_def by blast
  then show ?thesis using mem al xs(5) by simp
qed

lemma allocate_none_keeps:
  "allocate p = (None, p1) \<Longrightarrow> p1 = p"
  by (auto simp: allocate_def pop_free_def split: option.splits)

lemma deallocate_keeps_inv:
  assumes "pool_inv N p live" and "N < 18446744073709551616" and "obj \<in> live"
  shows "pool_inv N (deallocate p (Some obj)) (live - {obj})
       \<and> allocated (deallocate p (Some obj)) + 1 = allocated p"
proof -
  obtain xs where xs: "free_chain (node_next p) (free_list p) xs" "distinct xs"
    "set xs = {0..<N} - live" "live \<subseteq> {0..<N}" "allocated p = card live"
    using assms(1) by (auto simp: pool_inv_def)
  let ?p1 = "deallocate p (Some obj)"
  have fin: "finite live" using xs(4) finite_subset by blast
  have pos: "0 < card live" using assms(3) fin by (auto simp: card_gt_0_iff)
  then obtain c where c: "card live = Suc c" by (cases "card live") auto
  have cW: "c < 18446744073709551616" using live_card_le [OF xs(4)] assms(2) c by simp
  have notin: "obj \<notin> set xs" using xs(3) assms(3) by simp
  have nx: "node_next ?p1 = (node_next p)(obj := free_list p)" and fl: "free_list ?p1 = Some obj"
    by (simp_all add: deallocate_def push_free_def Let_def)
  have "(Suc c + 18446744073709551616 - 1) mod 18446744073709551616 = c"
    using cW by simp
  then have al: "allocated ?p1 + 1 = card live"
    by (simp add: deallocate_def push_free_def Let_def xs(5) c)
  have "free_chain (node_next ?p1) (free_list ?p1) (obj # xs)"
    using xs(1) notin by (simp add: nx fl free_chain_update)
  moreover have "distinct (obj # xs)" using xs(2) notin by simp
  moreover have "set (obj # xs) = {0..<N} - (live - {obj})" using xs(3,4) assms(3) by auto
  moreover have "live - {obj} \<subseteq> {0..<N}" using xs(4) by auto
  moreover have "allocated ?p1 = card (live - {obj})" using al fin assms(3) by simp
  ultimately have "pool_inv N ?p1 (live - {obj})" unfolding pool_inv_def by blast
  then show ?thesis using al xs(5) by simp
qed

lemma pool_reach_inv:
  assumes "0 < N" and "N < 18446744073709551616"
  shows "pool_reach N p live \<Longrightarrow> pool_inv N p live"
proof (induction rule: pool_reach.induct)
  case reach_new
  show ?case by (rule pool_inv_new [OF assms(1)])
next
  case (reach_allocate p live obj p1)
  show ?case
    using allocate_keeps_inv [OF reach_allocate.IH assms(2) reach_allocate.hyps(2)] by simp
next
  case (reach_exhausted p live p1)
  have "p1 = p" by (rule allocate_none_keeps [OF reach_exhausted.hyps(2)])
  then show ?case using reach_exhausted.IH by simp
next
  case (reach_deallocate p live obj)
  show ?case
    using deallocate_keeps_inv [OF reach_deallocate.IH assms(2) reach_deallocate.hyps(2)]
    by simp
next
  case (reach_deallocate_null p live)
  then show ?case by (simp add: deallocate_def)
qed

lemma pool_inv_facts:
  assumes "pool_inv N p live"
  shows "allocated p = card live" and "live \<subseteq> {0..<N}" and "finite live"
proof -
  show "allocated p = card live" and s: "live \<subseteq> {0..<N}"
    using assms by (auto simp: pool_inv_def)
  show "finite live" using s finite_subset by blast
qed

lemma allocate_n_reach:
  assumes "0 < N" and "N < 18446744073709551616"
  shows "n \<le> N \<Longrightarrow> \<exists>live. pool_reach N (allocate_n n (new_pool N)) live \<and> card live = n"
proof (induction n)
  case 0
  show ?case using reach_new [of N] by (intro exI [of _ "{}"]) simp
next
  case (Suc n)
  then obtain live where l: "pool_reach N (allocate_n n (new_pool N)) live" "card live = n"
    by auto
  let ?p = "allocate_n n (new_pool N)"
  have inv: "pool_inv N ?p live" by (rule pool_reach_inv [OF assms l(1)])
  have al: "allocated ?p = n" using pool_inv_facts(1) [OF inv] l(2) by simp
  have "fst (allocate ?p) \<noteq> None"
    using allocate_exhausted_iff [OF inv] al Suc.prems by simp
  then obtain obj p1 where a: "allocate ?p = (Some obj, p1)"
    by (cases "allocate ?p") auto
  have fin: "finite live" by (rule pool_inv_facts(3) [OF inv])
  have "obj \<notin> live" using allocate_keeps_inv [OF inv assms(2) a] by simp
  then have c: "card (insert obj live) = Suc n" using fin l(2) by simp
  have "pool_reach N (allocate_n (Suc n) (new_pool N)) (insert obj live)"
    using reach_allocate [OF l(1) a] a by simp
  then show ?case using c by (intro exI [of _ "insert obj live"]) simp
qed

text \<open>
  C7. For an ObjectPool of size \<open>N\<close> (positive, below \<open>2^64\<close>), used sequentially: each of
  the first \<open>N\<close> calls of \<open>allocate\<close> returns an object, the next returns null; in every
  reachable pool the counter is the number of live objects, that number is at most \<open>N\<close>,
  and \<open>allocate\<close> returns null exactly when it is \<open>N\<close>; after one \<open>deallocate\<close> of a live
  object of an exhausted pool, one \<open>allocate\<close> succeeds and the next returns null.
\<close>

theorem pool_exhaustion:
  assumes "0 < N" and "N < 18446744073709551616"
  shows "(\<forall>n<N. fst (allocate (allocate_n n (new_pool N))) \<noteq> None)
       \<and> fst (allocate (allocate_n N (new_pool N))) = None
       \<and> (\<exists>live. pool_reach N (allocate_n N (new_pool N)) live \<and> card live = N)
       \<and> (pool_reach N p live \<longrightarrow>
            allocated p = card live \<and> card live \<le> pool_capacity N
            \<and> (fst (allocate p) = None) = (card live = N))
       \<and> (pool_reach N p live \<and> card live = N \<and> obj \<in> live \<longrightarrow>
            fst (allocate (deallocate p (Some obj))) \<noteq> None
            \<and> fst (allocate (snd (allocate (deallocate p (Some obj))))) = None)"
proof (intro conjI)
  show "\<forall>n<N. fst (allocate (allocate_n n (new_pool N))) \<noteq> None"
  proof (intro allI impI)
    fix n assume n: "n < N"
    then obtain live where l: "pool_reach N (allocate_n n (new_pool N)) live" "card live = n"
      using allocate_n_reach [OF assms, of n] by auto
    have inv: "pool_inv N (allocate_n n (new_pool N)) live"
      by (rule pool_reach_inv [OF assms l(1)])
    have "allocated (allocate_n n (new_pool N)) = n"
      using pool_inv_facts(1) [OF inv] l(2) by simp
    then show "fst (allocate (allocate_n n (new_pool N))) \<noteq> None"
      using allocate_exhausted_iff [OF inv] n by simp
  qed
next
  obtain full where f: "pool_reach N (allocate_n N (new_pool N)) full" "card full = N"
    using allocate_n_reach [OF assms, of N] by auto
  have finv: "pool_inv N (allocate_n N (new_pool N)) full"
    by (rule pool_reach_inv [OF assms f(1)])
  have "allocated (allocate_n N (new_pool N)) = N"
    using pool_inv_facts(1) [OF finv] f(2) by simp
  then show "fst (allocate (allocate_n N (new_pool N))) = None"
    using allocate_exhausted_iff [OF finv] by simp
next
  show "\<exists>live. pool_reach N (allocate_n N (new_pool N)) live \<and> card live = N"
    using allocate_n_reach [OF assms, of N] by simp
next
  show "pool_reach N p live \<longrightarrow>
      allocated p = card live \<and> card live \<le> pool_capacity N
      \<and> (fst (allocate p) = None) = (card live = N)"
  proof
    assume r: "pool_reach N p live"
    have inv: "pool_inv N p live" by (rule pool_reach_inv [OF assms r])
    show "allocated p = card live \<and> card live \<le> pool_capacity N
        \<and> (fst (allocate p) = None) = (card live = N)"
      using pool_inv_facts(1) [OF inv] live_card_le [OF pool_inv_facts(2) [OF inv]]
        allocate_exhausted_iff [OF inv]
      by (simp add: pool_capacity_def)
  qed
next
  show "pool_reach N p live \<and> card live = N \<and> obj \<in> live \<longrightarrow>
      fst (allocate (deallocate p (Some obj))) \<noteq> None
      \<and> fst (allocate (snd (allocate (deallocate p (Some obj))))) = None"
  proof
    assume h: "pool_reach N p live \<and> card live = N \<and> obj \<in> live"
    then have r: "pool_reach N p live" and c: "card live = N" and m: "obj \<in> live"
      by simp_all
    let ?d = "deallocate p (Some obj)"
    have inv: "pool_inv N p live" by (rule pool_reach_inv [OF assms r])
    have ap: "allocated p = N" using pool_inv_facts(1) [OF inv] c by simp
    have d: "pool_inv N ?d (live - {obj})" "allocated ?d + 1 = allocated p"
      using deallocate_keeps_inv [OF inv assms(2) m] by simp_all
    have ne: "fst (allocate ?d) \<noteq> None"
      using allocate_exhausted_iff [OF d(1)] d(2) ap by simp
    then obtain o2 p2 where a2: "allocate ?d = (Some o2, p2)" by (cases "allocate ?d") auto
    have k: "pool_inv N p2 (insert o2 (live - {obj}))" "allocated p2 = allocated ?d + 1"
      using allocate_keeps_inv [OF d(1) assms(2) a2] by simp_all
    have "fst (allocate p2) = None"
      using allocate_exhausted_iff [OF k(1)] k(2) d(2) ap by simp
    then show "fst (allocate ?d) \<noteq> None \<and> fst (allocate (snd (allocate ?d))) = None"
      using ne a2 by simp
  qed
qed

lemma allocate_n_numeral:
  "allocate_n (numeral k) p = snd (allocate (allocate_n (pred_numeral k) p))"
  by (simp add: numeral_eq_Suc)

lemmas pool_eval = allocate_def pop_free_def deallocate_def push_free_def new_pool_def
  allocate_n_numeral Let_def

theorem pool_exhaustion_witness:
  "fst (allocate (allocate_n 0 (new_pool 2))) = Some 0
   \<and> fst (allocate (allocate_n 1 (new_pool 2))) = Some 1
   \<and> fst (allocate (allocate_n 2 (new_pool 2))) = None
   \<and> fst (allocate (deallocate (allocate_n 2 (new_pool 2)) (Some 0))) = Some 0
   \<and> fst (allocate (snd (allocate (deallocate (allocate_n 2 (new_pool 2)) (Some 0))))) = None
   \<and> allocated (allocate_n 2 (new_pool 2)) = 2"
proof -
  have h1: "(0::nat) < 2" by simp
  have h2: "(2::nat) < 18446744073709551616" by simp
  note T = pool_exhaustion [OF h1 h2]
  have e1: "fst (allocate (allocate_n 0 (new_pool 2))) = Some 0" by (simp add: pool_eval)
  have e2: "fst (allocate (allocate_n 1 (new_pool 2))) = Some 1" by (simp add: pool_eval)
  have e3: "fst (allocate (deallocate (allocate_n 2 (new_pool 2)) (Some 0))) = Some 0"
    by (simp add: pool_eval)
  have e4: "allocated (allocate_n 2 (new_pool 2)) = 2" by (simp add: pool_eval)
  have last: "fst (allocate (allocate_n 2 (new_pool 2))) = None"
    by (rule T [THEN conjunct2, THEN conjunct1])
  obtain live where r: "pool_reach 2 (allocate_n 2 (new_pool 2)) live" and c: "card live = 2"
    using T [THEN conjunct2, THEN conjunct2, THEN conjunct1] by auto
  have "live \<subseteq> {0..<2}"
    by (rule pool_inv_facts(2) [OF pool_reach_inv [OF h1 h2 r]])
  then have "live = {0..<2}" using c card_subset_eq [of "{0..<2}" live] by simp
  then have m: "0 \<in> live" by simp
  have again: "fst (allocate (snd (allocate (deallocate (allocate_n 2 (new_pool 2)) (Some 0))))) = None"
    using T [THEN conjunct2, THEN conjunct2, THEN conjunct2, THEN conjunct2,
        of "allocate_n 2 (new_pool 2)" live 0] r c m by simp
  show ?thesis using e1 e2 e3 e4 last again by simp
qed


section \<open>Execution engine: position table and position accounting\<close>

lemma i64_neg_nonzero:
  assumes "in_i64 x" and "x \<noteq> 0"
  shows "i64 (- x) \<noteq> 0"
proof (cases "x = - 9223372036854775808")
  case True
  then show ?thesis by (simp add: i64_def)
next
  case False
  then have "in_i64 (- x)" using assms(1) by (simp add: in_i64_def)
  then show ?thesis using assms(2) by (simp add: i64_id)
qed

lemma i64_abs_nonzero:
  assumes "in_i64 x" and "x \<noteq> 0"
  shows "i64 \<bar>x\<bar> \<noteq> 0"
proof (cases "x = - 9223372036854775808")
  case True
  then show ?thesis by (simp add: i64_def)
next
  case False
  then have "in_i64 \<bar>x\<bar>" using assms(1) by (auto simp: in_i64_def)
  then show ?thesis using assms(2) by (simp add: i64_id)
qed

lemma positions_emit_event [simp]:
  "positions (emit_event s ty oid symbol price qty err msg) = positions s"
  by (simp add: emit_event_def)

lemma apply_fill_quantity:
  "p_quantity (apply_fill pos delta price) = add64 (p_quantity pos) delta"
  by (simp add: apply_fill_def Let_def)

lemma positions_update_position:
  "positions (update_position s symbol side qty price) =
     (case positions s symbol of
        None \<Rightarrow> (positions s)(symbol \<mapsto>
          \<lparr>p_symbol = symbol, p_quantity = (if side = BUY then qty else neg64 qty),
           avg_entry_price = price, unrealized_pnl = 0, realized_pnl = 0\<rparr>)
      | Some pos \<Rightarrow>
          if add64 (p_quantity pos) (if side = BUY then qty else neg64 qty) = 0
          then (positions s)(symbol := None)
          else (positions s)(symbol \<mapsto> apply_fill pos (if side = BUY then qty else neg64 qty) price))"
  by (simp add: update_position_def Let_def is_flat_def apply_fill_quantity split: option.splits)

lemma update_position_keeps:
  assumes "no_flat_position s" and "quantities_in_range s" and "in_i64 qty" and "qty \<noteq> 0"
  shows "no_flat_position (update_position s symbol side qty price)
       \<and> quantities_in_range (update_position s symbol side qty price)"
proof (cases "positions s symbol")
  case None
  have "(if side = BUY then qty else neg64 qty) \<noteq> 0"
    using i64_neg_nonzero [OF assms(3,4)] assms(4) by (simp add: neg64_def)
  moreover have "in_i64 (if side = BUY then qty else neg64 qty)"
    using assms(3) in_i64_i64 by (simp add: neg64_def)
  ultimately show ?thesis
    using assms(1,2) None
    by (auto simp: no_flat_position_def quantities_in_range_def positions_update_position
        split: if_splits)
next
  case (Some pos)
  show ?thesis
    using assms(1,2) Some in_i64_i64
    by (simp add: no_flat_position_def quantities_in_range_def positions_update_position
        apply_fill_quantity add64_def)
qed

lemma positions_simulate_fill:
  "positions (simulate_fill s node fill_price) =
     positions (update_position (s\<lparr>order_store := (order_store s)(node :=
         (order_store s node)\<lparr>o_status := FILLED, o_filled_qty := o_quantity (order_store s node)\<rparr>)\<rparr>)
       (o_symbol (order_store s node)) (o_side (order_store s node))
       (o_quantity (order_store s node)) fill_price)"
  by (simp add: simulate_fill_def Let_def)

lemma positions_submit_order:
  "positions (snd (submit_order s symbol side type quantity price stop_price tif)) = positions s
   \<or> (\<exists>s1 fill_price. positions s1 = positions s
        \<and> positions (snd (submit_order s symbol side type quantity price stop_price tif))
            = positions (update_position s1 symbol side quantity fill_price))"
proof (cases "allocate (order_pool s)")
  case (Pair r pool1)
  show ?thesis
  proof (cases r)
    case None
    then show ?thesis using Pair by (simp add: submit_order_def)
  next
    case (Some node)
    show ?thesis
    proof (cases "check_position_risk s symbol side quantity \<and> check_order_count_risk s
        \<and> type = MARKET")
      case False
      then show ?thesis using Pair Some by (auto simp: submit_order_def Let_def)
    next
      case True
      let ?order = "\<lparr>o_id = next_order_id s, o_symbol = symbol, o_price = price,
          o_stop_price = stop_price, o_quantity = quantity, o_filled_qty = 0,
          o_side = side, o_type = type, o_tif = tif, o_status = PENDING\<rparr>"
      let ?s2 = "emit_event (s\<lparr>order_pool := pool1,
          next_order_id := (next_order_id s + 1) mod 18446744073709551616,
          order_store := (order_store s)(node := ?order),
          active_orders := AList.update (next_order_id s) node (active_orders s)\<rparr>)
          ORDER_SUBMITTED (next_order_id s) symbol price quantity OK ''Order submitted''"
      let ?fp = "if price \<noteq> 0 then price else get_execution_price ?s2 symbol side quantity"
      let ?s1 = "?s2\<lparr>order_store := (order_store ?s2)(node :=
         (order_store ?s2 node)\<lparr>o_status := FILLED, o_filled_qty := o_quantity (order_store ?s2 node)\<rparr>)\<rparr>"
      have r: "snd (submit_order s symbol side type quantity price stop_price tif)
          = simulate_fill ?s2 node ?fp"
        using True Pair Some by (simp add: submit_order_def Let_def)
      have st: "order_store ?s2 node = ?order" by (simp add: emit_event_def)
      have "positions (simulate_fill ?s2 node ?fp)
          = positions (update_position ?s1 symbol side quantity ?fp)"
        unfolding positions_simulate_fill st by simp
      moreover have "positions ?s1 = positions s" by simp
      ultimately show ?thesis unfolding r by blast
    qed
  qed
qed

lemma no_flat_cong:
  "positions s1 = positions s \<Longrightarrow> no_flat_position s1 = no_flat_position s"
  "positions s1 = positions s \<Longrightarrow> quantities_in_range s1 = quantities_in_range s"
  by (simp_all add: no_flat_position_def quantities_in_range_def)

lemma submit_order_keeps:
  assumes "no_flat_position s" and "quantities_in_range s"
    and "in_i64 quantity" and "quantity \<noteq> 0"
  shows "no_flat_position (snd (submit_order s symbol side type quantity price stop_price tif))
       \<and> quantities_in_range (snd (submit_order s symbol side type quantity price stop_price tif))"
proof -
  let ?r = "snd (submit_order s symbol side type quantity price stop_price tif)"
  consider "positions ?r = positions s"
    | s1 fill_price where "positions s1 = positions s"
        "positions ?r = positions (update_position s1 symbol side quantity fill_price)"
    using positions_submit_order [of s symbol side type quantity price stop_price tif] by blast
  then show ?thesis
  proof cases
    case 1
    then show ?thesis using assms(1,2) no_flat_cong by blast
  next
    case 2
    have "no_flat_position s1" "quantities_in_range s1"
      using assms(1,2) no_flat_cong [OF 2(1)] by simp_all
    then have "no_flat_position (update_position s1 symbol side quantity fill_price)
        \<and> quantities_in_range (update_position s1 symbol side quantity fill_price)"
      using update_position_keeps assms(3,4) by blast
    then show ?thesis using no_flat_cong [OF 2(2)] by simp
  qed
qed

lemma positions_cancel_order: "positions (snd (cancel_order s oid)) = positions s"
  by (simp add: cancel_order_def Let_def split: option.splits)

lemma close_position_keeps:
  assumes "no_flat_position s" and "quantities_in_range s"
  shows "no_flat_position (snd (close_position s symbol))
       \<and> quantities_in_range (snd (close_position s symbol))"
proof (cases "positions s symbol")
  case None
  then show ?thesis using assms by (simp add: close_position_def)
next
  case (Some pos)
  have r: "in_i64 (p_quantity pos)" and n: "p_quantity pos \<noteq> 0"
    using assms Some by (auto simp: no_flat_position_def quantities_in_range_def)
  have "in_i64 (abs64 (p_quantity pos))" by (simp add: abs64_def in_i64_i64)
  moreover have "abs64 (p_quantity pos) \<noteq> 0"
    using i64_abs_nonzero [OF r n] by (simp add: abs64_def)
  ultimately show ?thesis
    using Some n submit_order_keeps [OF assms]
    by (simp add: close_position_def is_flat_def Let_def)
qed

lemma engine_step_keeps:
  assumes "no_flat_position s" and "quantities_in_range s" and "nonzero_quantity x"
  shows "no_flat_position (engine_step s x) \<and> quantities_in_range (engine_step s x)"
proof (cases x)
  case (Submit symbol side type quantity price stop_price tif)
  then show ?thesis using assms submit_order_keeps by simp
next
  case (Cancel oid)
  then show ?thesis using assms no_flat_cong [OF positions_cancel_order] by simp
next
  case (ClosePosition symbol)
  then show ?thesis using assms close_position_keeps by simp
next
  case (UpdateOrderbook symbol book)
  then show ?thesis using assms
    by (simp add: update_orderbook_def no_flat_position_def quantities_in_range_def)
next
  case (SetEquity e)
  then show ?thesis using assms
    by (simp add: set_equity_def no_flat_position_def quantities_in_range_def)
qed

lemma engine_run_keeps:
  "no_flat_position s \<Longrightarrow> quantities_in_range s \<Longrightarrow> \<forall>x\<in>set ops. nonzero_quantity x \<Longrightarrow>
     no_flat_position (engine_run s ops) \<and> quantities_in_range (engine_run s ops)"
proof (induction ops arbitrary: s)
  case Nil
  then show ?case by (simp add: engine_run_def)
next
  case (Cons x ops)
  have "no_flat_position (engine_step s x) \<and> quantities_in_range (engine_step s x)"
    using engine_step_keeps Cons.prems by simp
  then show ?case using Cons.IH [of "engine_step s x"] Cons.prems(3)
    by (simp add: engine_run_def)
qed

lemma new_engine_no_flat:
  "no_flat_position (new_engine rp) \<and> quantities_in_range (new_engine rp)"
  by (simp add: new_engine_def no_flat_position_def quantities_in_range_def)

lemmas engine_eval = engine_run_def submit_order_def cancel_order_def close_position_def
  simulate_fill_def update_position_def apply_fill_def check_position_risk_def
  check_order_count_risk_def get_current_price_def get_execution_price_def get_position_def
  get_orderbook_def emit_event_def new_engine_def default_risk_params_def to_price_micro_def
  from_price_micro_def from_quantity_nano_def is_flat_def is_long_def is_active_def
  remaining_def allocate_def pop_free_def deallocate_def push_free_def new_pool_def
  ORDER_POOL_SIZE_def PRICE_SCALE_def QUANTITY_SCALE_def add64_def sub64_def mul64_def
  div64_def neg64_def abs64_def i64_def signed_divide_int_def Let_def set_equity_def

text \<open>
  C4 (as amended). For every sequence of engine operations (\<open>submit_order\<close>,
  \<open>cancel_order\<close>, \<open>close_position\<close>, orderbook and equity updates, and the fills they
  trigger) on a new engine in which every submitted order has a non-zero quantity, after
  each operation the position table has no entry of quantity zero; and a fill that brings
  the quantity of an existing position to zero removes that position.
\<close>

theorem no_flat_position_after_each_operation:
  assumes "\<forall>x\<in>set ops. nonzero_quantity x"
  shows "no_flat_position (engine_run (new_engine rp) (take n ops))
       \<and> (positions s symbol = Some pos
            \<and> add64 (p_quantity pos) (if side = BUY then qty else neg64 qty) = 0
          \<longrightarrow> positions (update_position s symbol side qty price) symbol = None)"
proof -
  have "\<forall>x\<in>set (take n ops). nonzero_quantity x"
    using assms by (auto dest: in_set_takeD)
  then have "no_flat_position (engine_run (new_engine rp) (take n ops))"
    using engine_run_keeps new_engine_no_flat by blast
  then show ?thesis by (simp add: positions_update_position)
qed

theorem no_flat_position_after_each_operation_witness:
  "no_flat_position (engine_run (new_engine default_risk_params)
     (take 1 [Submit ''DOGE/USDT'' BUY MARKET 5000000000 320100 0 GTC,
              Submit ''DOGE/USDT'' SELL MARKET 5000000000 320000 0 GTC]))
   \<and> map_option p_quantity (positions (engine_run (new_engine default_risk_params)
       [Submit ''DOGE/USDT'' BUY MARKET 5000000000 320100 0 GTC]) ''DOGE/USDT'') = Some 5000000000
   \<and> positions (update_position
        (update_position (new_engine default_risk_params) ''DOGE/USDT'' BUY 5000000000 320100)
        ''DOGE/USDT'' SELL 5000000000 320000) ''DOGE/USDT'' = None"
proof -
  let ?ops = "[Submit ''DOGE/USDT'' BUY MARKET 5000000000 320100 0 GTC,
               Submit ''DOGE/USDT'' SELL MARKET 5000000000 320000 0 GTC]"
  let ?s = "update_position (new_engine default_risk_params) ''DOGE/USDT'' BUY 5000000000 320100"
  let ?pos = "\<lparr>p_symbol = ''DOGE/USDT'', p_quantity = 5000000000, avg_entry_price = 320100,
      unrealized_pnl = 0, realized_pnl = 0\<rparr>"
  have h: "\<forall>x\<in>set ?ops. nonzero_quantity x" by (simp add: in_i64_def)
  note T = no_flat_position_after_each_operation [OF h, of default_risk_params 1 ?s
      "''DOGE/USDT''" ?pos SELL 5000000000 320000]
  have a: "no_flat_position (engine_run (new_engine default_risk_params) (take 1 ?ops))"
    by (rule T [THEN conjunct1])
  have b: "map_option p_quantity (positions (engine_run (new_engine default_risk_params)
       [Submit ''DOGE/USDT'' BUY MARKET 5000000000 320100 0 GTC]) ''DOGE/USDT'') = Some 5000000000"
    by (simp add: engine_eval)
  have p: "positions ?s ''DOGE/USDT'' = Some ?pos"
    by (simp add: positions_update_position new_engine_def)
  have z: "add64 (p_quantity ?pos) (if SELL = BUY then 5000000000 else neg64 5000000000) = 0"
    by (simp add: add64_def neg64_def i64_def)
  have c: "positions (update_position ?s ''DOGE/USDT'' SELL 5000000000 320000) ''DOGE/USDT'' = None"
    using T [THEN conjunct2] p z by blast
  show ?thesis using a b c by simp
qed

text \<open>
  The claim as stated fails for an order of quantity zero: it passes both risk gates, and
  its fill on a symbol without a position creates a position of quantity zero, which stays
  in the table.
\<close>

theorem zero_quantity_order_counterexample:
  "\<not> no_flat_position (engine_run (new_engine default_risk_params)
        [Submit ''DOGE/USDT'' BUY MARKET 0 0 0 GTC])"
proof -
  have "map_option p_quantity (positions (engine_run (new_engine default_risk_params)
      [Submit ''DOGE/USDT'' BUY MARKET 0 0 0 GTC]) ''DOGE/USDT'') = Some 0"
    by (simp add: engine_eval)
  then show ?thesis unfolding no_flat_position_def by auto
qed

lemma abs_sdiv: "\<bar>a sdiv b\<bar> = \<bar>a\<bar> div \<bar>b::int\<bar>"
proof -
  have "0 \<le> \<bar>a\<bar> div \<bar>b\<bar>" by (simp add: div_int_pos_iff)
  then show ?thesis by (auto simp: signed_divide_int_def abs_mult sgn_if)
qed

lemma abs_sdiv_le: "\<bar>a sdiv b\<bar> \<le> \<bar>a::int\<bar>"
proof (cases "b = 0")
  case True
  then show ?thesis by simp
next
  case False
  then have "\<bar>a\<bar> div \<bar>b\<bar> \<le> \<bar>a\<bar> div 1" by (intro zdiv_mono2) auto
  then show ?thesis by (simp add: abs_sdiv)
qed

lemma sdiv_sign:
  assumes "0 \<le> (b::int)"
  shows "(0 \<le> a \<longrightarrow> 0 \<le> a sdiv b) \<and> (a \<le> 0 \<longrightarrow> a sdiv b \<le> 0)"
proof -
  have "0 \<le> \<bar>a\<bar> div \<bar>b\<bar>" by (simp add: div_int_pos_iff)
  then show ?thesis using assms
    by (auto simp: signed_divide_int_def sgn_if mult_le_0_iff)
qed

lemma in_i64_abs_le: "in_i64 x \<Longrightarrow> \<bar>x\<bar> \<le> 9223372036854775808"
  by (auto simp: in_i64_def)

lemma abs_le_in_i64: "\<bar>x\<bar> \<le> 9223372036854775807 \<Longrightarrow> in_i64 x"
  by (auto simp: in_i64_def)

lemma in_i64_sdiv:
  assumes "in_i64 a" and "0 \<le> b"
  shows "in_i64 (a sdiv b)"
proof (cases "0 \<le> a")
  case True
  then have "0 \<le> a sdiv b" using sdiv_sign [OF assms(2), of a] by simp
  moreover have "\<bar>a sdiv b\<bar> \<le> \<bar>a\<bar>" by (rule abs_sdiv_le)
  ultimately show ?thesis using True assms(1) by (auto simp: in_i64_def)
next
  case False
  then have "a sdiv b \<le> 0" using sdiv_sign [OF assms(2), of a] by simp
  moreover have "\<bar>a sdiv b\<bar> \<le> \<bar>a\<bar>" by (rule abs_sdiv_le)
  ultimately show ?thesis using False assms(1) by (auto simp: in_i64_def)
qed

lemma div64_id: "in_i64 a \<Longrightarrow> 0 \<le> b \<Longrightarrow> div64 a b = a sdiv b"
  by (simp add: div64_def i64_id in_i64_sdiv)

lemma abs64_id: "\<bar>a\<bar> \<le> 9223372036854775807 \<Longrightarrow> abs64 a = \<bar>a\<bar>"
  by (simp add: abs64_def i64_id in_i64_def)

lemma in_i64_of_scaled:
  assumes "in_i64 (x * QUANTITY_SCALE)"
  shows "in_i64 x"
  using assms by (cases "0 \<le> x") (auto simp: in_i64_def QUANTITY_SCALE_def)

lemma scale_nonneg: "0 \<le> QUANTITY_SCALE"
  by (simp add: QUANTITY_SCALE_def)

lemma apply_fill_increase:
  assumes dir: "(0 \<le> p_quantity pos \<and> 0 < delta) \<or> (p_quantity pos \<le> 0 \<and> delta < 0)"
    and rng: "increase_in_range pos delta price"
  shows "apply_fill pos delta price =
           pos\<lparr>p_quantity := p_quantity pos + delta,
               avg_entry_price :=
                 (scaled_notional pos delta price * QUANTITY_SCALE) sdiv \<bar>p_quantity pos + delta\<bar>\<rparr>"
proof -
  let ?old = "p_quantity pos" and ?avg = "avg_entry_price pos"
  have r: "\<bar>?old\<bar> \<le> 9223372036854775807" "\<bar>delta\<bar> \<le> 9223372036854775807"
    "\<bar>?old + delta\<bar> \<le> 9223372036854775807"
    "in_i64 (?avg * \<bar>?old\<bar>)" "in_i64 (price * \<bar>delta\<bar>)"
    "in_i64 (scaled_notional pos delta price * QUANTITY_SCALE)"
    using rng by (simp_all add: increase_in_range_def)
  have nz: "?old + delta \<noteq> 0" using dir by auto
  have m1: "mul64 ?avg (abs64 ?old) = ?avg * \<bar>?old\<bar>"
    using r(1,4) by (simp add: mul64_def abs64_id i64_id)
  have m2: "mul64 price (abs64 delta) = price * \<bar>delta\<bar>"
    using r(2,5) by (simp add: mul64_def abs64_id i64_id)
  have tn: "add64 (div64 (?avg * \<bar>?old\<bar>) QUANTITY_SCALE) (div64 (price * \<bar>delta\<bar>) QUANTITY_SCALE)
      = scaled_notional pos delta price"
    using r(4,5) in_i64_of_scaled [OF r(6)]
    by (simp add: div64_id scale_nonneg add64_def i64_id scaled_notional_def)
  have q: "add64 ?old delta = ?old + delta"
    using abs_le_in_i64 [OF r(3)] by (simp add: add64_def i64_id)
  have m3: "mul64 (scaled_notional pos delta price) QUANTITY_SCALE
      = scaled_notional pos delta price * QUANTITY_SCALE"
    using r(6) by (simp add: mul64_def i64_id)
  have d: "div64 (scaled_notional pos delta price * QUANTITY_SCALE) (abs64 (?old + delta))
      = (scaled_notional pos delta price * QUANTITY_SCALE) sdiv \<bar>?old + delta\<bar>"
    using r(3,6) by (simp add: div64_id abs64_id)
  show ?thesis
    using dir nz by (simp add: apply_fill_def Let_def m1 m2 tn q m3 d)
qed

lemma apply_fill_reduce:
  assumes dir: "\<not> ((0 \<le> p_quantity pos \<and> 0 < delta) \<or> (p_quantity pos \<le> 0 \<and> delta < 0))"
    and rng: "reduce_in_range pos delta price"
  shows "apply_fill pos delta price =
           pos\<lparr>realized_pnl := realized_pnl pos
                  + (if 0 < p_quantity pos then closed_pnl pos delta price
                     else - closed_pnl pos delta price),
               p_quantity := p_quantity pos + delta\<rparr>"
proof -
  let ?old = "p_quantity pos" and ?avg = "avg_entry_price pos"
  let ?pnl = "closed_pnl pos delta price"
  have r: "\<bar>?old\<bar> \<le> 9223372036854775807" "\<bar>delta\<bar> \<le> 9223372036854775807"
    "in_i64 (?old + delta)" "in_i64 (price - ?avg)"
    "in_i64 ((price - ?avg) * min \<bar>?old\<bar> \<bar>delta\<bar>)"
    "in_i64 (realized_pnl pos + ?pnl)" "in_i64 (realized_pnl pos - ?pnl)"
    using rng by (simp_all add: reduce_in_range_def)
  have c: "min (abs64 ?old) (abs64 delta) = min \<bar>?old\<bar> \<bar>delta\<bar>"
    using r(1,2) by (simp add: abs64_id)
  have s: "sub64 price ?avg = price - ?avg" using r(4) by (simp add: sub64_def i64_id)
  have m: "mul64 (price - ?avg) (min \<bar>?old\<bar> \<bar>delta\<bar>) = (price - ?avg) * min \<bar>?old\<bar> \<bar>delta\<bar>"
    using r(5) by (simp add: mul64_def i64_id)
  have d: "div64 ((price - ?avg) * min \<bar>?old\<bar> \<bar>delta\<bar>) QUANTITY_SCALE = ?pnl"
    using r(5) by (simp add: div64_id scale_nonneg closed_pnl_def)
  have n: "neg64 ?pnl = - ?pnl"
  proof -
    let ?x = "(price - ?avg) * min \<bar>?old\<bar> \<bar>delta\<bar>"
    have "abs ?x \<le> 9223372036854775808" by (rule in_i64_abs_le [OF r(5)])
    then have "abs ?x div 1000000000 \<le> 9223372036854775808 div 1000000000"
      by (intro zdiv_mono1) auto
    moreover have "abs ?pnl = abs ?x div 1000000000"
      by (simp add: closed_pnl_def abs_sdiv QUANTITY_SCALE_def)
    ultimately have "abs ?pnl \<le> 9223372036854775807" by simp
    then have "in_i64 (- ?pnl)" by (auto simp: in_i64_def)
    then show ?thesis by (simp add: neg64_def i64_id)
  qed
  have a1: "add64 (realized_pnl pos) ?pnl = realized_pnl pos + ?pnl"
    using r(6) by (simp add: add64_def i64_id)
  have a2: "add64 (realized_pnl pos) (- ?pnl) = realized_pnl pos - ?pnl"
    using r(7) by (simp add: add64_def i64_id)
  have q: "add64 ?old delta = ?old + delta" using r(3) by (simp add: add64_def i64_id)
  have a: "add64 (realized_pnl pos) (if p_quantity pos > 0 then ?pnl else - ?pnl)
      = realized_pnl pos + (if 0 < p_quantity pos then ?pnl else - ?pnl)"
    using a1 a2 by simp
  have nd: "((p_quantity pos \<ge> 0 \<and> delta > 0) \<or> (p_quantity pos \<le> 0 \<and> delta < 0)) = False"
    using dir by simp
  show ?thesis
    by (simp only: apply_fill_def Let_def nd if_False c s m d n a q)
qed

lemma scaled_notional_exact:
  assumes "QUANTITY_SCALE dvd avg_entry_price pos * \<bar>p_quantity pos\<bar>"
    and "QUANTITY_SCALE dvd price * \<bar>delta\<bar>"
  shows "scaled_notional pos delta price * QUANTITY_SCALE
       = avg_entry_price pos * \<bar>p_quantity pos\<bar> + price * \<bar>delta\<bar>"
proof -
  have e: "\<And>x. QUANTITY_SCALE dvd x \<Longrightarrow> (x sdiv QUANTITY_SCALE) * QUANTITY_SCALE = x"
    by (auto simp: signed_divide_int_def QUANTITY_SCALE_def sgn_if)
  show ?thesis
    using e [OF assms(1)] e [OF assms(2)] by (simp add: scaled_notional_def algebra_simps)
qed

lemma code_delta:
  "\<bar>signed_quantity side qty\<bar> \<le> 9223372036854775807 \<Longrightarrow>
     (if side = BUY then qty else neg64 qty) = signed_quantity side qty"
proof (cases "side = BUY")
  case True
  then show ?thesis by (simp add: signed_quantity_def)
next
  case False
  assume "\<bar>signed_quantity side qty\<bar> \<le> 9223372036854775807"
  then have "in_i64 (- qty)" using False by (auto simp: signed_quantity_def in_i64_def)
  then show ?thesis using False by (simp add: signed_quantity_def neg64_def i64_id)
qed

lemmas fill_eval = positions_update_position apply_fill_def new_engine_def add64_def sub64_def
  mul64_def div64_def neg64_def abs64_def i64_def QUANTITY_SCALE_def signed_divide_int_def
  Let_def

lemma fill_increase_positions:
  assumes ex: "positions s symbol = Some pos"
    and dir: "(0 \<le> p_quantity pos \<and> 0 < signed_quantity side qty)
        \<or> (p_quantity pos \<le> 0 \<and> signed_quantity side qty < 0)"
    and rng: "increase_in_range pos (signed_quantity side qty) price"
  shows "positions (update_position s symbol side qty price) symbol =
      Some (pos\<lparr>p_quantity := p_quantity pos + signed_quantity side qty,
                avg_entry_price :=
                  (scaled_notional pos (signed_quantity side qty) price * QUANTITY_SCALE)
                    sdiv \<bar>p_quantity pos + signed_quantity side qty\<bar>\<rparr>)"
proof -
  let ?d = "signed_quantity side qty"
  have dl: "(if side = BUY then qty else neg64 qty) = ?d"
    using rng by (intro code_delta) (simp add: increase_in_range_def)
  have "in_i64 (p_quantity pos + ?d)"
    using rng by (intro abs_le_in_i64) (simp add: increase_in_range_def)
  then have q: "add64 (p_quantity pos) ?d = p_quantity pos + ?d"
    by (simp add: add64_def i64_id)
  have nz: "p_quantity pos + ?d \<noteq> 0" using dir by auto
  show ?thesis
    using nz by (simp add: positions_update_position ex dl q apply_fill_increase [OF dir rng])
qed

lemma fill_reduce_positions:
  assumes ex: "positions s symbol = Some pos"
    and dir: "\<not> ((0 \<le> p_quantity pos \<and> 0 < signed_quantity side qty)
        \<or> (p_quantity pos \<le> 0 \<and> signed_quantity side qty < 0))"
    and rng: "reduce_in_range pos (signed_quantity side qty) price"
  shows "positions (update_position s symbol side qty price) symbol =
      (if p_quantity pos + signed_quantity side qty = 0 then None
       else Some (pos\<lparr>realized_pnl := realized_pnl pos
                        + (if 0 < p_quantity pos
                           then closed_pnl pos (signed_quantity side qty) price
                           else - closed_pnl pos (signed_quantity side qty) price),
                      p_quantity := p_quantity pos + signed_quantity side qty\<rparr>))"
proof -
  let ?d = "signed_quantity side qty"
  have dl: "(if side = BUY then qty else neg64 qty) = ?d"
    using rng by (intro code_delta) (simp add: reduce_in_range_def)
  have q: "add64 (p_quantity pos) ?d = p_quantity pos + ?d"
    using rng by (simp add: reduce_in_range_def add64_def i64_id)
  show ?thesis
    by (simp add: positions_update_position ex dl q apply_fill_reduce [OF dir rng])
qed

text \<open>
  C3 (as amended). For every fill applied to an existing position, while no intermediate
  result leaves the signed 64-bit range: a same-direction fill adds the signed delta to the
  quantity and sets the average entry price to
  \<open>(oldAvg * |oldQty| / 10^9 + fillPrice * |fillQty| / 10^9) * 10^9 / |newQty|\<close>, every
  division truncating; this is the truncated volume-weighted average
  \<open>(oldAvg * |oldQty| + fillPrice * |fillQty|) / |newQty|\<close> when both products are multiples
  of \<open>10^9\<close>. An opposite-direction fill leaves the average entry price unchanged, adds
  \<open>(fillPrice - avgEntryPrice) * min(|oldQty|, |fillQty|) / 10^9\<close> (truncated), signed by
  the direction of the prior position, to the realized PnL, and adds the signed delta to
  the quantity (the position is removed when that is zero). Starting flat, buy 10 at 100.0
  then buy 10 at 110.0 gives quantity 20 and average entry 105.0; then sell 15 at 120.0
  gives quantity 5, realized PnL 225.0, average entry still 105.0.
\<close>

theorem position_fill_accounting:
  assumes ex: "positions s symbol = Some pos"
  shows "(((0 \<le> p_quantity pos \<and> 0 < signed_quantity side qty)
            \<or> (p_quantity pos \<le> 0 \<and> signed_quantity side qty < 0))
          \<and> increase_in_range pos (signed_quantity side qty) price \<longrightarrow>
          positions (update_position s symbol side qty price) symbol =
            Some (pos\<lparr>p_quantity := p_quantity pos + signed_quantity side qty,
                      avg_entry_price :=
                        (scaled_notional pos (signed_quantity side qty) price * QUANTITY_SCALE)
                          sdiv \<bar>p_quantity pos + signed_quantity side qty\<bar>\<rparr>)
          \<and> (QUANTITY_SCALE dvd avg_entry_price pos * \<bar>p_quantity pos\<bar>
               \<and> QUANTITY_SCALE dvd price * \<bar>signed_quantity side qty\<bar> \<longrightarrow>
               scaled_notional pos (signed_quantity side qty) price * QUANTITY_SCALE
                 = avg_entry_price pos * \<bar>p_quantity pos\<bar>
                     + price * \<bar>signed_quantity side qty\<bar>))
       \<and> (\<not> ((0 \<le> p_quantity pos \<and> 0 < signed_quantity side qty)
               \<or> (p_quantity pos \<le> 0 \<and> signed_quantity side qty < 0))
          \<and> reduce_in_range pos (signed_quantity side qty) price \<longrightarrow>
          positions (update_position s symbol side qty price) symbol =
            (if p_quantity pos + signed_quantity side qty = 0 then None
             else Some (pos\<lparr>realized_pnl := realized_pnl pos
                              + (if 0 < p_quantity pos
                                 then closed_pnl pos (signed_quantity side qty) price
                                 else - closed_pnl pos (signed_quantity side qty) price),
                            p_quantity := p_quantity pos + signed_quantity side qty\<rparr>)))
       \<and> positions (update_position (update_position (new_engine rp)
            ''DOGE/USDT'' BUY 10000000000 100000000)
            ''DOGE/USDT'' BUY 10000000000 110000000) ''DOGE/USDT''
          = Some \<lparr>p_symbol = ''DOGE/USDT'', p_quantity = 20000000000,
                  avg_entry_price = 105000000, unrealized_pnl = 0, realized_pnl = 0\<rparr>
       \<and> positions (update_position (update_position (update_position (new_engine rp)
            ''DOGE/USDT'' BUY 10000000000 100000000)
            ''DOGE/USDT'' BUY 10000000000 110000000)
            ''DOGE/USDT'' SELL 15000000000 120000000) ''DOGE/USDT''
          = Some \<lparr>p_symbol = ''DOGE/USDT'', p_quantity = 5000000000,
                  avg_entry_price = 105000000, unrealized_pnl = 0, realized_pnl = 225000000\<rparr>"
proof (intro conjI impI, goal_cases)
  case 1
  then show ?case using fill_increase_positions [OF ex] by blast
next
  case 2
  then show ?case using scaled_notional_exact by blast
next
  case 3
  then show ?case using fill_reduce_positions [OF ex] by blast
next
  case 4
  show ?case by (simp add: fill_eval)
next
  case 5
  show ?case by (simp add: fill_eval)
qed

theorem position_fill_accounting_witness:
  "positions (update_position
      (update_position (new_engine default_risk_params) ''DOGE/USDT'' BUY 10000000000 100000000)
      ''DOGE/USDT'' BUY 10000000000 110000000) ''DOGE/USDT''
     = Some \<lparr>p_symbol = ''DOGE/USDT'', p_quantity = 20000000000,
             avg_entry_price = 105000000, unrealized_pnl = 0, realized_pnl = 0\<rparr>
   \<and> positions (update_position
      (update_position (new_engine default_risk_params) ''DOGE/USDT'' BUY 10000000000 100000000)
      ''DOGE/USDT'' SELL 4000000000 120000000) ''DOGE/USDT''
     = Some \<lparr>p_symbol = ''DOGE/USDT'', p_quantity = 6000000000,
             avg_entry_price = 100000000, unrealized_pnl = 0, realized_pnl = 80000000\<rparr>"
proof -
  let ?s = "update_position (new_engine default_risk_params) ''DOGE/USDT'' BUY 10000000000 100000000"
  let ?pos = "\<lparr>p_symbol = ''DOGE/USDT'', p_quantity = 10000000000,
      avg_entry_price = 100000000, unrealized_pnl = 0, realized_pnl = 0\<rparr>"
  have ex: "positions ?s ''DOGE/USDT'' = Some ?pos"
    by (simp add: positions_update_position new_engine_def)
  have d1: "(0 \<le> p_quantity ?pos \<and> 0 < signed_quantity BUY 10000000000)
      \<or> (p_quantity ?pos \<le> 0 \<and> signed_quantity BUY 10000000000 < 0)"
    by (simp add: signed_quantity_def)
  have r1: "increase_in_range ?pos (signed_quantity BUY 10000000000) 110000000"
    by (simp add: increase_in_range_def scaled_notional_def signed_quantity_def in_i64_def
        QUANTITY_SCALE_def signed_divide_int_def)
  have d2: "\<not> ((0 \<le> p_quantity ?pos \<and> 0 < signed_quantity SELL 4000000000)
      \<or> (p_quantity ?pos \<le> 0 \<and> signed_quantity SELL 4000000000 < 0))"
    by (simp add: signed_quantity_def)
  have r2: "reduce_in_range ?pos (signed_quantity SELL 4000000000) 120000000"
    by (simp add: reduce_in_range_def closed_pnl_def signed_quantity_def in_i64_def
        QUANTITY_SCALE_def signed_divide_int_def)
  have a: "positions (update_position ?s ''DOGE/USDT'' BUY 10000000000 110000000) ''DOGE/USDT''
      = Some (?pos\<lparr>p_quantity := p_quantity ?pos + signed_quantity BUY 10000000000,
            avg_entry_price :=
              (scaled_notional ?pos (signed_quantity BUY 10000000000) 110000000 * QUANTITY_SCALE)
                sdiv \<bar>p_quantity ?pos + signed_quantity BUY 10000000000\<bar>\<rparr>)"
    using position_fill_accounting [OF ex, of BUY 10000000000 110000000] d1 r1 by blast
  have b: "positions (update_position ?s ''DOGE/USDT'' SELL 4000000000 120000000) ''DOGE/USDT''
      = (if p_quantity ?pos + signed_quantity SELL 4000000000 = 0 then None
         else Some (?pos\<lparr>realized_pnl := realized_pnl ?pos
                + (if 0 < p_quantity ?pos
                   then closed_pnl ?pos (signed_quantity SELL 4000000000) 120000000
                   else - closed_pnl ?pos (signed_quantity SELL 4000000000) 120000000),
              p_quantity := p_quantity ?pos + signed_quantity SELL 4000000000\<rparr>))"
    using position_fill_accounting [OF ex, of SELL 4000000000 120000000] d2 r2 by blast
  have a': "positions (update_position ?s ''DOGE/USDT'' BUY 10000000000 110000000) ''DOGE/USDT''
      = Some \<lparr>p_symbol = ''DOGE/USDT'', p_quantity = 20000000000,
             avg_entry_price = 105000000, unrealized_pnl = 0, realized_pnl = 0\<rparr>"
    unfolding a
    by (simp add: scaled_notional_def signed_quantity_def QUANTITY_SCALE_def signed_divide_int_def)
  have b': "positions (update_position ?s ''DOGE/USDT'' SELL 4000000000 120000000) ''DOGE/USDT''
      = Some \<lparr>p_symbol = ''DOGE/USDT'', p_quantity = 6000000000,
             avg_entry_price = 100000000, unrealized_pnl = 0, realized_pnl = 80000000\<rparr>"
    unfolding b
    by (simp add: closed_pnl_def signed_quantity_def QUANTITY_SCALE_def signed_divide_int_def)
  show ?thesis using a' b' by simp
qed

text \<open>
  The claim as stated fails in two ways. Where a product is not a multiple of \<open>10^9\<close> the
  truncation shows: a position of 0.5 at 100.000001, increased by 0.5 at the same price,
  gets the average entry price 100.000000, while the volume-weighted average is
  100.000001. Where a product of price and quantity leaves the 64-bit range, which it does
  for every notional above 9,223.37, the stored average is unrelated to the prices: a
  position of 1 at 50,000.0, increased by 1 at 50,000.0, gets the average entry price
  3,883.139815.
\<close>

theorem average_entry_price_counterexample:
  "map_option avg_entry_price (positions (update_position
      (update_position (new_engine default_risk_params) ''DOGE/USDT'' BUY 500000000 100000001)
      ''DOGE/USDT'' BUY 500000000 100000001) ''DOGE/USDT'') = Some 100000000
   \<and> (100000001 * \<bar>500000000\<bar> + 100000001 * \<bar>500000000\<bar>) sdiv \<bar>500000000 + 500000000\<bar>
       = (100000001::int)
   \<and> map_option avg_entry_price (positions (update_position
      (update_position (new_engine default_risk_params) ''BTC/USDT'' BUY 1000000000 50000000000)
      ''BTC/USDT'' BUY 1000000000 50000000000) ''BTC/USDT'') = Some 3883139815
   \<and> (50000000000 * \<bar>1000000000\<bar> + 50000000000 * \<bar>1000000000\<bar>)
        sdiv \<bar>1000000000 + 1000000000\<bar> = (50000000000::int)"
  by (simp add: fill_eval)


section \<open>Execution engine: cancellation and the position-size gate\<close>

lemma emit_event_fields [simp]:
  "active_orders (emit_event s ty oid symbol price qty err msg) = active_orders s"
  "order_store (emit_event s ty oid symbol price qty err msg) = order_store s"
  "order_pool (emit_event s ty oid symbol price qty err msg) = order_pool s"
  by (simp_all add: emit_event_def)

lemma update_position_orders [simp]:
  "active_orders (update_position s symbol side qty price) = active_orders s"
  "order_store (update_position s symbol side qty price) = order_store s"
  by (simp_all add: update_position_def Let_def emit_event_def split: option.splits)

lemma simulate_fill_orders:
  "active_orders (simulate_fill s node fill_price)
     = AList.delete (o_id (order_store s node)) (active_orders s)"
  by (simp add: simulate_fill_def Let_def)

lemma map_of_delete_same: "map_of (AList.delete k al) k = None"
  by (simp add: AList.delete_conv')

lemma map_of_update_same: "map_of (AList.update k v al) k = Some v"
  by (simp add: AList.update_conv')

lemma submit_order_accepted:
  assumes "submit_order s symbol side type quantity price stop_price tif = (oid, s1)"
    and "oid \<noteq> 0"
  shows "\<exists>node pool1. allocate (order_pool s) = (Some node, pool1) \<and> oid = next_order_id s
         \<and> s1 = (let order = \<lparr>o_id = oid, o_symbol = symbol, o_price = price,
                           o_stop_price = stop_price, o_quantity = quantity, o_filled_qty = 0,
                           o_side = side, o_type = type, o_tif = tif, o_status = PENDING\<rparr>;
                      s2 = emit_event (s\<lparr>order_pool := pool1,
                             next_order_id := (oid + 1) mod 18446744073709551616,
                             order_store := (order_store s)(node := order),
                             active_orders := AList.update oid node (active_orders s)\<rparr>)
                             ORDER_SUBMITTED oid symbol price quantity OK ''Order submitted''
                  in if type = MARKET then
                       simulate_fill s2 node
                         (if price \<noteq> 0 then price
                          else get_execution_price s2 symbol side quantity)
                     else s2)"
proof (cases "allocate (order_pool s)")
  case (Pair r pool1)
  show ?thesis
  proof (cases r)
    case None
    then show ?thesis using assms Pair
      by (auto simp: submit_order_def split: if_splits)
  next
    case (Some node)
    then show ?thesis using assms Pair
      by (auto simp: submit_order_def Let_def split: if_splits)
  qed
qed

text \<open>
  C1. What the code does with an order that \<open>submit_order\<close> accepts (a non-zero id): an
  order that is not a market order stays in the active order table with status
  \<open>PENDING\<close>, never \<open>OPEN\<close>, so \<open>cancel_order\<close> on its id finds an order that is not
  active, returns false and leaves the engine, the table included, unchanged. A market
  order is filled and removed from the table, and \<open>cancel_order\<close> on its id returns
  false.
\<close>

theorem submitted_order_cannot_be_cancelled:
  assumes "submit_order s symbol side type quantity price stop_price tif = (oid, s1)"
    and "oid \<noteq> 0"
  shows "(type \<noteq> MARKET \<longrightarrow>
            (\<exists>node. map_of (active_orders s1) oid = Some node
               \<and> o_status (order_store s1 node) = PENDING)
            \<and> cancel_order s1 oid = (False, s1))
       \<and> (type = MARKET \<longrightarrow>
            map_of (active_orders s1) oid = None \<and> cancel_order s1 oid = (False, s1))"
proof -
  obtain node pool1 where a: "allocate (order_pool s) = (Some node, pool1)"
    and s1: "s1 = (let order = \<lparr>o_id = oid, o_symbol = symbol, o_price = price,
                           o_stop_price = stop_price, o_quantity = quantity, o_filled_qty = 0,
                           o_side = side, o_type = type, o_tif = tif, o_status = PENDING\<rparr>;
                      s2 = emit_event (s\<lparr>order_pool := pool1,
                             next_order_id := (oid + 1) mod 18446744073709551616,
                             order_store := (order_store s)(node := order),
                             active_orders := AList.update oid node (active_orders s)\<rparr>)
                             ORDER_SUBMITTED oid symbol price quantity OK ''Order submitted''
                  in if type = MARKET then
                       simulate_fill s2 node
                         (if price \<noteq> 0 then price
                          else get_execution_price s2 symbol side quantity)
                     else s2)"
    using submit_order_accepted [OF assms] by blast
  show ?thesis
  proof (cases "type = MARKET")
    case True
    have "map_of (active_orders s1) oid = None"
      using True by (simp add: s1 Let_def simulate_fill_orders map_of_delete_same)
    then show ?thesis using True by (simp add: cancel_order_def)
  next
    case False
    have m: "map_of (active_orders s1) oid = Some node"
      using False by (simp add: s1 Let_def map_of_update_same)
    have st: "o_status (order_store s1 node) = PENDING"
      using False by (simp add: s1 Let_def)
    have "cancel_order s1 oid = (False, s1)"
      using m st by (simp add: cancel_order_def is_active_def Let_def)
    then show ?thesis using False m st by blast
  qed
qed

theorem submitted_order_cannot_be_cancelled_witness:
  "fst (submit_order (new_engine default_risk_params)
          ''DOGE/USDT'' BUY LIMIT 1000000000 320000 0 GTC) = 1
   \<and> cancel_order (snd (submit_order (new_engine default_risk_params)
          ''DOGE/USDT'' BUY LIMIT 1000000000 320000 0 GTC)) 1
       = (False, snd (submit_order (new_engine default_risk_params)
          ''DOGE/USDT'' BUY LIMIT 1000000000 320000 0 GTC))
   \<and> map_of (active_orders (snd (submit_order (new_engine default_risk_params)
          ''DOGE/USDT'' BUY LIMIT 1000000000 320000 0 GTC))) 1 = Some 0
   \<and> o_status (order_store (snd (submit_order (new_engine default_risk_params)
          ''DOGE/USDT'' BUY LIMIT 1000000000 320000 0 GTC)) 0) = PENDING"
proof -
  let ?r = "submit_order (new_engine default_risk_params)
      ''DOGE/USDT'' BUY LIMIT 1000000000 320000 0 GTC"
  have f: "fst ?r = 1" by (simp add: engine_eval)
  have e: "?r = (1, snd ?r)" using f by (simp add: prod_eq_iff)
  have n: "(1::nat) \<noteq> 0" by simp
  have c: "cancel_order (snd ?r) 1 = (False, snd ?r)"
    using submitted_order_cannot_be_cancelled [OF e n] by simp
  have m: "map_of (active_orders (snd ?r)) 1 = Some 0" by (simp add: engine_eval)
  have p: "o_status (order_store (snd ?r) 0) = PENDING" by (simp add: engine_eval)
  show ?thesis using f c m p by simp
qed






end
